theory Spec2Isabelle
  imports Complex_Main
begin

section \<open>Strings\<close>

text \<open>
  A JavaScript string is a sequence of UTF-16 code units; a code unit is modelled as
  an integer and a string as a list of them. \<open>ascii\<close> turns an ASCII literal of
  the theory into such a string.
\<close>

type_synonym jschar = int
type_synonym jsstring = "int list"

definition ascii :: "string \<Rightarrow> jsstring" where
  "ascii s = map of_char s"

text \<open>The class \<^verbatim>\<open>\d\<close> of a regular expression without the unicode flag: 0 to 9.\<close>

definition is_digit :: "jschar \<Rightarrow> bool" where
  "is_digit c = (48 \<le> c \<and> c \<le> 57)"

text \<open>
  The code units that \<^verbatim>\<open>String.prototype.trim\<close> removes: the WhiteSpace and
  LineTerminator productions of ECMAScript (tab, LF, VT, FF, CR, space, NBSP, U+1680,
  U+2000 to U+200A, U+2028, U+2029, U+202F, U+205F, U+3000 and the byte order mark).
\<close>

definition is_space :: "jschar \<Rightarrow> bool" where
  "is_space c =
     ((9 \<le> c \<and> c \<le> 13) \<or> c = 32 \<or> c = 160 \<or> c = 5760 \<or> (8192 \<le> c \<and> c \<le> 8202)
      \<or> c = 8232 \<or> c = 8233 \<or> c = 8239 \<or> c = 8287 \<or> c = 12288 \<or> c = 65279)"

definition trim :: "jsstring \<Rightarrow> jsstring" where
  "trim s = rev (dropWhile is_space (rev (dropWhile is_space s)))"

text \<open>\<^verbatim>\<open>s.split('#')[0]\<close>: the text before the first number sign.\<close>

definition before_hash :: "jsstring \<Rightarrow> jsstring" where
  "before_hash s = takeWhile (\<lambda>c. c \<noteq> 35) s"

text \<open>
  \<^verbatim>\<open>text.split(/[\r\n]+/)\<close>: the pieces between the maximal runs of CR and LF. A run
  at the start or at the end of the text leaves an empty piece there, and the empty
  text has the one piece \<open>[]\<close>.
\<close>

definition is_crlf :: "jschar \<Rightarrow> bool" where
  "is_crlf c = (c = 13 \<or> c = 10)"

function split_lines :: "jsstring \<Rightarrow> jsstring list" where
  "split_lines [] = [[]]"
| "split_lines (c # cs) =
     (if is_crlf c then [] # split_lines (dropWhile is_crlf cs)
      else (case split_lines cs of
              [] \<Rightarrow> [[c]]
            | l # ls \<Rightarrow> (c # l) # ls))"
  by pat_completeness auto
termination
  by (relation "measure length") (auto simp: le_imp_less_Suc length_dropWhile_le)

section \<open>The candidate pattern\<close>

text \<open>
  The fragment of regular expressions that the pattern of \<^verbatim>\<open>fetchProxyCandidates\<close>
  uses: \<^verbatim>\<open>\d\<close>, a literal character, concatenation and the bounded repetition
  \<^verbatim>\<open>r{m,n}\<close>.
\<close>

datatype rx = Digit | Lit jschar | Seq rx rx | Rep nat nat rx

text \<open>
  \<open>iter f k ss\<close> are the rests of the strings \<open>ss\<close> after \<open>k\<close> matches of \<open>f\<close> in a
  row; \<open>rems r s\<close> are all the rests of \<open>s\<close> after a match of \<open>r\<close> at its start.
\<close>

primrec iter :: "(jsstring \<Rightarrow> jsstring list) \<Rightarrow> nat \<Rightarrow> jsstring list \<Rightarrow> jsstring list" where
  "iter f 0 ss = ss"
| "iter f (Suc k) ss = iter f k (concat (map f ss))"

primrec rems :: "rx \<Rightarrow> jsstring \<Rightarrow> jsstring list" where
  "rems Digit s = (case s of [] \<Rightarrow> [] | c # cs \<Rightarrow> if is_digit c then [cs] else [])"
| "rems (Lit a) s = (case s of [] \<Rightarrow> [] | c # cs \<Rightarrow> if c = a then [cs] else [])"
| "rems (Seq r1 r2) s = concat (map (rems r2) (rems r1 s))"
| "rems (Rep m n r) s = concat (map (\<lambda>k. iter (rems r) k [s]) [m..<Suc n])"

text \<open>
  \<^verbatim>\<open>/^r$/.test(s)\<close> without flags: the whole of \<open>s\<close> matches \<open>r\<close>.
\<close>

definition regex_test :: "rx \<Rightarrow> jsstring \<Rightarrow> bool" where
  "regex_test r s = ([] \<in> set (rems r s))"

text \<open>\<^verbatim>\<open>/^\d{1,3}(\.\d{1,3}){3}:\d{2,5}$/\<close>\<close>

definition candidate_rx :: rx where
  "candidate_rx =
     Seq (Rep 1 3 Digit)
       (Seq (Rep 3 3 (Seq (Lit 46) (Rep 1 3 Digit)))
         (Seq (Lit 58) (Rep 2 5 Digit)))"

section \<open>Exceptions and responses\<close>

text \<open>
  A thrown value is an \<^verbatim>\<open>Error\<close> with its \<^verbatim>\<open>name\<close> and \<^verbatim>\<open>message\<close>. A call that
  may throw returns \<open>exn + 'a\<close>, \<open>Inl\<close> the exception. A response has the \<^verbatim>\<open>ok\<close>
  flag, the status and the outcome of reading its body in the way the caller reads
  it (\<^verbatim>\<open>text()\<close>, \<^verbatim>\<open>json()\<close>, \<^verbatim>\<open>arrayBuffer()\<close>), which may throw as well.
\<close>

datatype exn = Exn (name: jsstring) (message: jsstring)

record 'b response =
  res_ok :: bool
  res_status :: nat
  res_body :: "exn + 'b"

type_synonym 'b fetched = "exn + 'b response"

section \<open>Candidate collector\<close>

definition PROXY_SOURCES :: "jsstring list" where
  "PROXY_SOURCES =
    [ascii ''https://api.proxyscrape.com/v3/free-proxy-list/get?request=displayproxies&protocol=http&timeout=5000&country=all&ssl=all&anonymity=elite,anonymous'',
     ascii ''https://raw.githubusercontent.com/TheSpeedX/PROXY-List/master/http.txt'',
     ascii ''https://raw.githubusercontent.com/clarketm/proxy-list/master/proxy-list-raw.txt'',
     ascii ''https://raw.githubusercontent.com/ShiftyTR/Proxy-List/master/http.txt'',
     ascii ''https://raw.githubusercontent.com/monosans/proxy-list/main/proxies/http.txt'']"

text \<open>\<^verbatim>\<open>line.trim().split('#')[0].trim()\<close>\<close>

definition strip_line :: "jsstring \<Rightarrow> jsstring" where
  "strip_line line = trim (before_hash (trim line))"

text \<open>\<^verbatim>\<open>set.add(t)\<close> on a \<^verbatim>\<open>Set\<close>, which keeps its members in insertion order.\<close>

definition set_add :: "jsstring list \<Rightarrow> jsstring \<Rightarrow> jsstring list" where
  "set_add acc t = (if t \<in> set acc then acc else acc @ [t])"

text \<open>The loop over the lines of one body.\<close>

definition add_lines :: "jsstring list \<Rightarrow> jsstring list \<Rightarrow> jsstring list" where
  "add_lines acc ls =
     fold (\<lambda>line acc. let t = strip_line line in
                        if regex_test candidate_rx t then set_add acc t else acc) ls acc"

text \<open>
  The callback of \<^verbatim>\<open>PROXY_SOURCES.map\<close> for one source: a fetch that throws, a
  response that is not ok and a body that cannot be read add nothing.
\<close>

definition add_source :: "jsstring fetched \<Rightarrow> jsstring list \<Rightarrow> jsstring list" where
  "add_source r acc =
     (case r of
        Inl e \<Rightarrow> acc
      | Inr res \<Rightarrow>
          if \<not> res_ok res then acc
          else (case res_body res of
                  Inl e \<Rightarrow> acc
                | Inr text \<Rightarrow> add_lines acc (split_lines text)))"

text \<open>
  \<open>fetch\<close> is what \<^verbatim>\<open>directFetch(src, 8000, ...)\<close> gives for each source. The sources
  are fetched concurrently and each body is parsed in one piece when it has arrived;
  the model takes the bodies in the order of \<open>PROXY_SOURCES\<close>. The order of arrival
  changes the order of the result only, never its members.
\<close>

definition fetchProxyCandidates :: "(jsstring \<Rightarrow> jsstring fetched) \<Rightarrow> jsstring list" where
  "fetchProxyCandidates fetch = fold (\<lambda>src acc. add_source (fetch src) acc) PROXY_SOURCES []"

section \<open>State\<close>

text \<open>
  An entry of \<^verbatim>\<open>state.log\<close> is kept as the message, with the values its template
  prints, and the type. Its time stamp and the rendering of the message to text are
  left out, as is the echo on the console. The messages, in the order of the source:
  \<^item> \<open>MsgFetching\<close>: \<^verbatim>\<open>Fetching proxy candidates...\<close>; \<open>MsgGot n\<close>: \<^verbatim>\<open>Got n candidates\<close>;
    \<open>MsgPool n\<close>: \<^verbatim>\<open>Proxy pool: n working IPs ready\<close>; \<open>MsgRefreshError m\<close>:
    \<^verbatim>\<open>Proxy refresh error: m\<close>;
  \<^item> \<open>MsgLoading\<close>: \<^verbatim>\<open>Loading project from Modrinth API...\<close>; \<open>MsgLoaded title n\<close>: the
    title and \<^verbatim>\<open>n versions\<close>;
  \<^item> \<open>MsgView n status\<close>: \<^verbatim>\<open>View #n\<close> and the status; \<open>MsgViewFailed r\<close>:
    \<^verbatim>\<open>View failed: r\<close>;
  \<^item> \<open>MsgNoVersions\<close>: \<^verbatim>\<open>No versions\<close>; \<open>MsgDownload fname loader gameVer\<close>:
    \<^verbatim>\<open>Download: fname [loader gameVer]\<close>; \<open>MsgViaProxy p\<close>: \<^verbatim>\<open>via proxy p\<close>;
    \<open>MsgDownloadOk n kb via\<close>: \<^verbatim>\<open>Download #n\<close> with the size and the proxy or
    \<^verbatim>\<open>direct\<close>; \<open>MsgProxyDead p r\<close>: \<^verbatim>\<open>Proxy p dead (r)\<close>; \<open>MsgNoProxies\<close>:
    \<^verbatim>\<open>No proxies in pool\<close>; \<open>MsgDownloadFailed r\<close>: \<^verbatim>\<open>Download FAILED: r\<close>;
  \<^item> \<open>MsgCycle n\<close>: \<^verbatim>\<open>Cycle #n\<close>; \<open>MsgReading ms\<close>: \<^verbatim>\<open>Reading for ... s\<close>;
    \<open>MsgCycleError m\<close>: \<^verbatim>\<open>Cycle error: m\<close>; \<open>MsgNext ms\<close>: \<^verbatim>\<open>Next in ... s\<close>.
\<close>

datatype log_type = LInfo | LOk | LWarn | LErr | LDl

datatype log_msg =
    MsgFetching
  | MsgGot nat
  | MsgPool nat
  | MsgRefreshError jsstring
  | MsgLoading
  | MsgLoaded jsstring nat
  | MsgView nat nat
  | MsgViewFailed jsstring
  | MsgNoVersions
  | MsgDownload jsstring "jsstring option" "jsstring option"
  | MsgViaProxy jsstring
  | MsgDownloadOk nat nat jsstring
  | MsgProxyDead jsstring jsstring
  | MsgNoProxies
  | MsgDownloadFailed jsstring
  | MsgCycle nat
  | MsgReading real
  | MsgCycleError jsstring
  | MsgNext real

text \<open>
  The metadata of the version list: a file, and a version with its files (a version
  without the field has none), its loaders and game versions (\<open>None\<close> when the field
  is missing) and its number.
\<close>

record dl_file =
  url :: jsstring
  filename :: jsstring
  primary :: bool

record version =
  files :: "dl_file list"
  loaders :: "jsstring list option"
  game_versions :: "jsstring list option"
  version_number :: jsstring

record project =
  title :: jsstring

record download_record =
  dl_filename :: jsstring
  dl_loader :: "jsstring option"
  dl_gameVer :: "jsstring option"
  dl_version :: jsstring
  dl_sizeKB :: nat
  dl_via :: jsstring
  dl_ts :: jsstring

record state =
  views :: nat
  downloads :: nat
  dlFailed :: nat
  errors :: nat
  cycles :: nat
  lastView :: "jsstring option"
  lastDl :: "download_record option"
  lastError :: "jsstring option"
  log_list :: "(log_msg \<times> log_type) list"
  versions :: "version list"
  projectData :: "project option"
  proxyPool :: "jsstring list"
  proxyTested :: nat
  proxyWorking :: nat
  proxyRefreshing :: bool
  lastProxyRefresh :: "jsstring option"

text \<open>The state the process starts with.\<close>

definition initial_state :: state where
  "initial_state =
     \<lparr>views = 0, downloads = 0, dlFailed = 0, errors = 0, cycles = 0,
      lastView = None, lastDl = None, lastError = None,
      log_list = [], versions = [], projectData = None,
      proxyPool = [], proxyTested = 0, proxyWorking = 0,
      proxyRefreshing = False, lastProxyRefresh = None\<rparr>"

text \<open>\<^verbatim>\<open>log(msg, type)\<close>: the entry goes to the front and the list keeps 150 entries.\<close>

definition log_add :: "log_msg \<Rightarrow> log_type \<Rightarrow> state \<Rightarrow> state" where
  "log_add m t s =
     (let l = (m, t) # log_list s
      in s\<lparr>log_list := (if length l > 150 then butlast l else l)\<rparr>)"

section \<open>The environment\<close>

text \<open>
  The requests a function sends, in the order it sends them: a direct fetch of a URL,
  a fetch of a URL through a proxy, and the probe of a proxy.
\<close>

datatype net_call = DirectFetch jsstring | ProxyFetch jsstring jsstring | ProbeFetch jsstring

text \<open>One \<^verbatim>\<open>reader.read()\<close> of the page: it throws, reports the end, or gives a chunk.\<close>

datatype read_result = ReadThrows exn | ReadDone | ReadChunk nat

text \<open>What \<^verbatim>\<open>vr.json()\<close> gives: an array of versions or another value.\<close>

datatype version_json = NotArray | Versions "version list"

text \<open>
  Everything the program reads from outside: the answers of the network, the random
  draws and the clock.
  \<^item> \<open>fetchSource src\<close>: \<^verbatim>\<open>directFetch(src, 8000, ...)\<close> of a proxy source;
  \<^item> \<open>sort_random\<close>: \<^verbatim>\<open>candidates.sort(() => Math.random() - 0.5)\<close>;
  \<^item> \<open>probe hp\<close>: the request to the echo service through \<open>hp\<close>, its body read as
    whether \<^verbatim>\<open>typeof j.origin === 'string'\<close> (reading the field of a body that is not
    an object throws);
  \<^item> \<open>fault k\<close>: an exception that the runtime raises at the \<open>k\<close>-th \<^verbatim>\<open>await\<close> of the
    \<^verbatim>\<open>try\<close> block of \<^verbatim>\<open>refreshProxyPool\<close>. The functions called there absorb their
    own failures, so its \<^verbatim>\<open>catch\<close> clause is reached by nothing else;
  \<^item> \<open>apiFetch\<close>: the \<^verbatim>\<open>Promise.all\<close> of the two requests of \<^verbatim>\<open>loadVersions\<close>;
  \<^item> \<open>viewFetch\<close>: the request of \<^verbatim>\<open>registerView\<close>: the status and, if the response
    has a body, the results of the successive reads;
  \<^item> \<open>proxyDownload url hp\<close> and \<open>directDownload url\<close>: the two requests of
    \<^verbatim>\<open>downloadFile\<close>, the body read as its \<^verbatim>\<open>byteLength\<close>;
  \<^item> \<open>rand_version\<close>, \<open>rand_read\<close>, \<open>rand_next\<close>: the values of \<^verbatim>\<open>Math.random()\<close>
    that choose the version, the reading time and the delay of the next cycle;
  \<^item> \<open>now\<close>: \<^verbatim>\<open>new Date().toISOString()\<close>.
  The request headers and the lengths of the sleeps inside a function change nothing
  in the state and are left out; real arithmetic stands for the floating point of the
  delays. An asynchronous function is modelled from its call to its return, with no
  step of another task between its own.
\<close>

record env =
  fetchSource :: "jsstring \<Rightarrow> jsstring fetched"
  sort_random :: "jsstring list \<Rightarrow> jsstring list"
  probe :: "jsstring \<Rightarrow> bool fetched"
  fault :: "nat \<Rightarrow> exn option"
  apiFetch :: "exn + (project response \<times> version_json response)"
  viewFetch :: "exn + (nat \<times> read_result list option)"
  proxyDownload :: "jsstring \<Rightarrow> jsstring \<Rightarrow> nat fetched"
  directDownload :: "jsstring \<Rightarrow> nat fetched"
  rand_version :: real
  rand_read :: real
  rand_next :: real
  now :: jsstring

section \<open>Helpers\<close>

text \<open>\<^verbatim>\<open>String(n)\<close> of a natural number.\<close>

function dec :: "nat \<Rightarrow> jsstring" where
  "dec n = (if n < 10 then [48 + int n] else dec (n div 10) @ [48 + int (n mod 10)])"
  by pat_completeness auto
termination
  by (relation "measure id") auto

text \<open>
  \<^verbatim>\<open>arr[Math.floor(r * arr.length)]\<close>, \<open>None\<close> for \<^verbatim>\<open>undefined\<close>: an index outside
  the array reads \<^verbatim>\<open>undefined\<close>.
\<close>

definition randEl :: "'a list \<Rightarrow> real \<Rightarrow> 'a option" where
  "randEl arr r =
     (let i = \<lfloor>r * real (length arr)\<rfloor>
      in if 0 \<le> i \<and> i < int (length arr) then Some (arr ! nat i) else None)"

definition jitter :: "real \<Rightarrow> real \<Rightarrow> real \<Rightarrow> real" where
  "jitter ms pct r = ms + (r - 1 / 2) * ms * pct"

definition INTERVAL_MS :: real where
  "INTERVAL_MS = 12000"

definition PROXY_REFRESH_EVERY :: nat where
  "PROXY_REFRESH_EVERY = 25"

text \<open>\<^verbatim>\<open>e.name === 'AbortError' ? 'timeout' : e.message\<close>\<close>

definition reason :: "exn \<Rightarrow> jsstring" where
  "reason e = (if name e = ascii ''AbortError'' then ascii ''timeout'' else message e)"

text \<open>\<^verbatim>\<open>new Error(msg)\<close> and the \<^verbatim>\<open>TypeError\<close> of reading a property of \<^verbatim>\<open>undefined\<close>.\<close>

definition Error :: "jsstring \<Rightarrow> exn" where
  "Error m = Exn (ascii ''Error'') m"

definition TypeError :: "jsstring \<Rightarrow> exn" where
  "TypeError m = Exn (ascii ''TypeError'') m"

section \<open>Health tester\<close>

text \<open>
  \<^verbatim>\<open>testProxy(hostPort)\<close>: true only if the request through the proxy returns, the
  response is ok and the body has a string in \<^verbatim>\<open>origin\<close>.
\<close>

definition testProxy :: "env \<Rightarrow> jsstring \<Rightarrow> bool" where
  "testProxy env hostPort =
     (case probe env hostPort of
        Inl e \<Rightarrow> False
      | Inr res \<Rightarrow>
          if \<not> res_ok res then False
          else (case res_body res of Inl e \<Rightarrow> False | Inr origin_is_string \<Rightarrow> origin_is_string))"

section \<open>Proxy pool\<close>

text \<open>\<^verbatim>\<open>nextProxy()\<close>, \<open>None\<close> for \<^verbatim>\<open>null\<close>: the head goes to the back and is returned.\<close>

definition nextProxy :: "state \<Rightarrow> jsstring option \<times> state" where
  "nextProxy s =
     (case proxyPool s of
        [] \<Rightarrow> (None, s)
      | p # ps \<Rightarrow> (Some p, s\<lparr>proxyPool := ps @ [p]\<rparr>))"

text \<open>
  The removal of a dead proxy in the \<^verbatim>\<open>catch\<close> clause of \<^verbatim>\<open>downloadFile\<close>:
  \<^verbatim>\<open>state.proxyPool = state.proxyPool.filter(p => p !== proxy)\<close> and
  \<^verbatim>\<open>state.proxyWorking = state.proxyPool.length\<close>.
\<close>

definition evict :: "jsstring \<Rightarrow> state \<Rightarrow> state" where
  "evict proxy s =
     (let pool = filter (\<lambda>p. p \<noteq> proxy) (proxyPool s)
      in s\<lparr>proxyPool := pool, proxyWorking := length pool\<rparr>)"

text \<open>\<open>n\<close> calls of \<^verbatim>\<open>nextProxy()\<close> in a row, with what they return.\<close>

fun checkouts :: "nat \<Rightarrow> state \<Rightarrow> jsstring option list \<times> state" where
  "checkouts 0 s = ([], s)"
| "checkouts (Suc n) s =
     (let (p, s1) = nextProxy s; (ps, s2) = checkouts n s1 in (p # ps, s2))"

section \<open>Pool refresher\<close>

definition BATCH :: nat where
  "BATCH = 15"

text \<open>
  \<^verbatim>\<open>results.filter(Boolean)\<close> keeps the truthy results: not \<^verbatim>\<open>null\<close> and not the
  empty string.
\<close>

definition truthy :: "jsstring option \<Rightarrow> bool" where
  "truthy r = (case r of None \<Rightarrow> False | Some hp \<Rightarrow> hp \<noteq> [])"

text \<open>
  The loop over the batches, from index \<open>i\<close> with the proxies \<open>working\<close> found so far
  and the probes \<open>net\<close> sent so far. It returns the working proxies, or the exception
  raised while a batch was awaited.
\<close>

function testBatches ::
  "env \<Rightarrow> jsstring list \<Rightarrow> nat \<Rightarrow> jsstring list \<Rightarrow> net_call list
     \<Rightarrow> (exn + jsstring list) \<times> net_call list" where
  "testBatches env pool i working net =
     (if i < length pool \<and> length working < 35 then
        (let batch = take BATCH (drop i pool);
             net1 = net @ map ProbeFetch batch
         in case fault env (Suc (i div BATCH)) of
              Some e \<Rightarrow> (Inl e, net1)
            | None \<Rightarrow>
                (let results = map (\<lambda>hp. if testProxy env hp then Some hp else None) batch
                 in testBatches env pool (i + BATCH)
                      (working @ map the (filter truthy results)) net1))
      else (Inr working, net))"
  by pat_completeness auto
termination
  by (relation "measure (\<lambda>(env, pool, i, working, net). length pool - i)")
    (auto simp: BATCH_def)

text \<open>
  The call of \<^verbatim>\<open>refreshProxyPool()\<close> up to its first \<^verbatim>\<open>await\<close>: the guard, the flag
  and the first entry of the log.
\<close>

definition refreshProxyPool_sync :: "state \<Rightarrow> state" where
  "refreshProxyPool_sync s =
     (if proxyRefreshing s then s
      else log_add MsgFetching LInfo (s\<lparr>proxyRefreshing := True\<rparr>))"

text \<open>
  The \<^verbatim>\<open>try\<close> block: the state it leaves, the exception that left it, if any, and the
  requests it sent.
\<close>

definition refresh_try :: "env \<Rightarrow> state \<Rightarrow> state \<times> exn option \<times> net_call list" where
  "refresh_try env s =
     (let net0 = map DirectFetch PROXY_SOURCES
      in case fault env 0 of
           Some e \<Rightarrow> (s, Some e, net0)
         | None \<Rightarrow>
             (let candidates = fetchProxyCandidates (fetchSource env);
                  s1 = log_add (MsgGot (length candidates)) LInfo s;
                  pool = take 80 (sort_random env candidates)
              in case testBatches env pool 0 [] net0 of
                   (Inl e, net) \<Rightarrow> (s1, Some e, net)
                 | (Inr working, net) \<Rightarrow>
                     (let s2 = s1\<lparr>proxyTested := min (length pool) 80,
                                  proxyWorking := length working,
                                  proxyPool := working,
                                  lastProxyRefresh := Some (now env)\<rparr>
                      in (log_add (MsgPool (length working))
                            (if length working > 0 then LOk else LWarn) s2,
                          None, net))))"

text \<open>
  The rest of \<^verbatim>\<open>refreshProxyPool()\<close> from its first \<^verbatim>\<open>await\<close>: the \<^verbatim>\<open>try\<close> block, the
  \<^verbatim>\<open>catch\<close> clause, and the reset of the flag.
\<close>

definition refreshProxyPool_rest :: "env \<Rightarrow> state \<Rightarrow> state \<times> net_call list" where
  "refreshProxyPool_rest env s =
     (case refresh_try env s of
        (s1, thrown, net) \<Rightarrow>
          (let s2 = (case thrown of
                       None \<Rightarrow> s1
                     | Some e \<Rightarrow> log_add (MsgRefreshError (message e)) LErr s1)
           in (s2\<lparr>proxyRefreshing := False\<rparr>, net)))"

text \<open>\<^verbatim>\<open>refreshProxyPool()\<close>, awaited to its end.\<close>

definition refreshProxyPool :: "env \<Rightarrow> state \<Rightarrow> state \<times> net_call list" where
  "refreshProxyPool env s =
     (if proxyRefreshing s then (s, [])
      else refreshProxyPool_rest env (refreshProxyPool_sync s))"

section \<open>Version metadata\<close>

text \<open>
  \<^verbatim>\<open>loadVersions()\<close>: it returns at once when versions are cached; otherwise it throws
  what the requests throw, an error for a project response that is not ok, and the
  \<^verbatim>\<open>TypeError\<close> of \<^verbatim>\<open>all.filter\<close> when the version body is not an array. The body of
  the project response is taken to be an object.
\<close>

definition loadVersions :: "env \<Rightarrow> state \<Rightarrow> (exn + unit) \<times> state" where
  "loadVersions env s =
     (if versions s \<noteq> [] then (Inr (), s)
      else
        (let s1 = log_add MsgLoading LInfo s
         in case apiFetch env of
              Inl e \<Rightarrow> (Inl e, s1)
            | Inr (pr, vr) \<Rightarrow>
                if \<not> res_ok pr
                then (Inl (Error (ascii ''Project API '' @ dec (res_status pr))), s1)
                else (case res_body pr of
                        Inl e \<Rightarrow> (Inl e, s1)
                      | Inr pd \<Rightarrow>
                          (let s2 = s1\<lparr>projectData := Some pd\<rparr>
                           in case res_body vr of
                                Inl e \<Rightarrow> (Inl e, s2)
                              | Inr NotArray \<Rightarrow>
                                  (Inl (TypeError (ascii ''all.filter is not a function'')), s2)
                              | Inr (Versions all) \<Rightarrow>
                                  (let s3 = s2\<lparr>versions := filter (\<lambda>v. files v \<noteq> []) all\<rparr>
                                   in (Inr (),
                                       log_add (MsgLoaded (title pd) (length (versions s3)))
                                         LOk s3))))))"

section \<open>Page view\<close>

text \<open>
  The loop of \<^verbatim>\<open>registerView\<close> that reads the page until 32768 bytes have come or the
  stream is done, from \<open>b\<close> bytes read so far: \<open>Some\<close> the exception that a read threw.
  A stream with no more results is done.
\<close>

fun read_page :: "nat \<Rightarrow> read_result list \<Rightarrow> exn option" where
  "read_page b [] = None"
| "read_page b (r # rs) =
     (if b < 32768 then
        (case r of
           ReadThrows e \<Rightarrow> Some e
         | ReadDone \<Rightarrow> None
         | ReadChunk n \<Rightarrow> read_page (b + n) rs)
      else None)"

text \<open>\<^verbatim>\<open>registerView()\<close>: it catches every failure and returns whether the view counted.\<close>

definition registerView :: "env \<Rightarrow> state \<Rightarrow> bool \<times> state" where
  "registerView env s =
     (let failed = (\<lambda>e. (False, log_add (MsgViewFailed (reason e)) LWarn s))
      in case viewFetch env of
           Inl e \<Rightarrow> failed e
         | Inr (status, body) \<Rightarrow>
             (case (case body of None \<Rightarrow> None | Some reads \<Rightarrow> read_page 0 reads) of
                Some e \<Rightarrow> failed e
              | None \<Rightarrow>
                  (let s1 = s\<lparr>views := views s + 1, lastView := Some (now env)\<rparr>
                   in (True, log_add (MsgView (views s1) status) LOk s1))))"

section \<open>Download\<close>

text \<open>\<^verbatim>\<open>Math.round(byteLength / 1024)\<close>\<close>

definition sizeKB :: "nat \<Rightarrow> nat" where
  "sizeKB n = (n + 512) div 1024"

text \<open>
  \<^verbatim>\<open>(xs || [d])[0]\<close>, \<open>None\<close> for \<^verbatim>\<open>undefined\<close>: the default when the field is missing,
  and \<^verbatim>\<open>undefined\<close> for an empty array.
\<close>

definition first_or :: "jsstring \<Rightarrow> jsstring list option \<Rightarrow> jsstring option" where
  "first_or d xs = (case xs of None \<Rightarrow> Some d | Some [] \<Rightarrow> None | Some (x # _) \<Rightarrow> Some x)"

text \<open>\<^verbatim>\<open>ver.files.find(f => f.primary) || ver.files[0]\<close>, \<open>None\<close> for \<^verbatim>\<open>undefined\<close>.\<close>

definition pick_file :: "version \<Rightarrow> dl_file option" where
  "pick_file ver =
     (case find primary (files ver) of
        Some f \<Rightarrow> Some f
      | None \<Rightarrow> (case files ver of [] \<Rightarrow> None | f # _ \<Rightarrow> Some f))"

text \<open>
  The body of both \<^verbatim>\<open>try\<close> blocks up to the size check: the \<^verbatim>\<open>byteLength\<close> of a body
  that is good, or the exception thrown; \<open>small n\<close> is the message for a body of
  \<open>n < 100\<close> bytes.
\<close>

definition attempt :: "(nat \<Rightarrow> jsstring) \<Rightarrow> nat fetched \<Rightarrow> exn + nat" where
  "attempt small r =
     (case r of
        Inl e \<Rightarrow> Inl e
      | Inr res \<Rightarrow>
          if \<not> res_ok res then Inl (Error (ascii ''HTTP '' @ dec (res_status res)))
          else (case res_body res of
                  Inl e \<Rightarrow> Inl e
                | Inr n \<Rightarrow> if n < 100 then Inl (Error (small n)) else Inr n))"

text \<open>The success of a download of \<open>n\<close> bytes: the counter, the record and the log.\<close>

definition record_download ::
  "env \<Rightarrow> version \<Rightarrow> dl_file \<Rightarrow> nat \<Rightarrow> jsstring \<Rightarrow> state \<Rightarrow> state" where
  "record_download env ver file n via s =
     (let s1 = s\<lparr>downloads := downloads s + 1,
                 lastDl := Some \<lparr>dl_filename = filename file,
                                 dl_loader = first_or (ascii ''unknown'') (loaders ver),
                                 dl_gameVer = first_or (ascii ''?'') (game_versions ver),
                                 dl_version = version_number ver,
                                 dl_sizeKB = sizeKB n,
                                 dl_via = via,
                                 dl_ts = now env\<rparr>\<rparr>
      in log_add (MsgDownloadOk (downloads s1) (sizeKB n) via) LOk s1)"

text \<open>The fallback: the direct request, and what its \<^verbatim>\<open>try\<close> and \<^verbatim>\<open>catch\<close> do.\<close>

definition direct_attempt ::
  "env \<Rightarrow> version \<Rightarrow> dl_file \<Rightarrow> state \<Rightarrow> bool \<times> state \<times> net_call list" where
  "direct_attempt env ver file s =
     (case attempt (\<lambda>n. ascii ''Too small'') (directDownload env (url file)) of
        Inr n \<Rightarrow> (True, record_download env ver file n (ascii ''direct'') s, [DirectFetch (url file)])
      | Inl e \<Rightarrow>
          (False,
           log_add (MsgDownloadFailed (reason e)) LErr
             (s\<lparr>dlFailed := dlFailed s + 1, lastError := Some (message e)\<rparr>),
           [DirectFetch (url file)]))"

text \<open>
  \<^verbatim>\<open>downloadFile()\<close>: what it returns or throws, the state it leaves and the calls of
  \<^verbatim>\<open>proxyFetch\<close> and \<^verbatim>\<open>directFetch\<close> it made. A version or a file that is \<^verbatim>\<open>undefined\<close>
  makes the read of its property throw before the first \<^verbatim>\<open>try\<close>.
\<close>

definition downloadFile :: "env \<Rightarrow> state \<Rightarrow> (exn + bool) \<times> state \<times> net_call list" where
  "downloadFile env s =
     (if versions s = [] then (Inr False, log_add MsgNoVersions LWarn s, [])
      else
        (case randEl (versions s) (rand_version env) of
           None \<Rightarrow>
             (Inl (TypeError (ascii ''Cannot read properties of undefined (reading 'files')'')),
              s, [])
         | Some ver \<Rightarrow>
             (case pick_file ver of
                None \<Rightarrow>
                  (Inl (TypeError (ascii ''Cannot read properties of undefined (reading 'url')'')),
                   s, [])
              | Some file \<Rightarrow>
                  (let s1 = log_add (MsgDownload (filename file)
                                       (first_or (ascii ''unknown'') (loaders ver))
                                       (first_or (ascii ''?'') (game_versions ver))) LDl s;
                       (proxy, s2) = nextProxy s1
                   in if truthy proxy then
                        (let p = the proxy;
                             s3 = log_add (MsgViaProxy p) LDl s2
                         in case attempt (\<lambda>n. ascii ''Too small: '' @ dec n @ ascii ''b'')
                                   (proxyDownload env (url file) p) of
                              Inr n \<Rightarrow>
                                (Inr True, record_download env ver file n p s3,
                                 [ProxyFetch (url file) p])
                            | Inl e \<Rightarrow>
                                (let s4 = log_add (MsgProxyDead p (reason e)) LWarn (evict p s3)
                                 in case direct_attempt env ver file s4 of
                                      (ok, s5, net) \<Rightarrow>
                                        (Inr ok, s5, ProxyFetch (url file) p # net)))
                      else
                        (case direct_attempt env ver file (log_add MsgNoProxies LWarn s2) of
                           (ok, s4, net) \<Rightarrow> (Inr ok, s4, net))))))"

section \<open>Cycle controller\<close>

text \<open>
  The start of \<^verbatim>\<open>runCycle()\<close>, before its \<^verbatim>\<open>try\<close>: the cycle counter, and on the first
  cycle and every 25th the call of \<^verbatim>\<open>refreshProxyPool()\<close>, which is not awaited. The
  call runs to its first \<^verbatim>\<open>await\<close>; its rest, \<open>refreshProxyPool_rest\<close>, runs in the
  background and is not part of the cycle.
\<close>

definition cycle_start :: "state \<Rightarrow> state" where
  "cycle_start s =
     (let s1 = log_add (MsgCycle (cycles s + 1)) LInfo (s\<lparr>cycles := cycles s + 1\<rparr>)
      in if cycles s1 = 1 \<or> cycles s1 mod PROXY_REFRESH_EVERY = 0
         then refreshProxyPool_sync s1 else s1)"

text \<open>The \<^verbatim>\<open>try\<close> block of the cycle: the exception that left it, if any, and the state.\<close>

definition cycle_body :: "env \<Rightarrow> state \<Rightarrow> exn option \<times> state" where
  "cycle_body env s =
     (case (if versions s = [] then loadVersions env s else (Inr (), s)) of
        (Inl e, s1) \<Rightarrow> (Some e, s1)
      | (Inr u, s1) \<Rightarrow>
          (let s2 = snd (registerView env s1);
               readTime = 5000 + rand_read env * 9000;
               s3 = log_add (MsgReading readTime) LInfo s2
           in case downloadFile env s3 of
                (Inl e, s4, net) \<Rightarrow> (Some e, s4)
              | (Inr ok, s4, net) \<Rightarrow> (None, s4)))"

text \<open>
  \<^verbatim>\<open>runCycle()\<close>: the state it leaves and the delays of the calls of
  \<^verbatim>\<open>setTimeout(runCycle, next)\<close> it made.
\<close>

definition runCycle :: "env \<Rightarrow> state \<Rightarrow> state \<times> real list" where
  "runCycle env s =
     (case cycle_body env (cycle_start s) of
        (thrown, s1) \<Rightarrow>
          (let s2 = (case thrown of
                       None \<Rightarrow> s1
                     | Some e \<Rightarrow>
                         (log_add (MsgCycleError (message e)) LErr s1)
                           \<lparr>errors := errors s1 + 1, lastError := Some (message e)\<rparr>);
               next = jitter INTERVAL_MS (1 / 4) (rand_next env)
           in (log_add (MsgNext next) LInfo s2, [next])))"

section \<open>The controller of \<^verbatim>\<open>server.js\<close>\<close>

text \<open>
  \<^verbatim>\<open>server.js\<close> is the controller without the proxy pool: it loads the versions, views
  the page and downloads a file directly. Its names carry the suffix \<open>_srv\<close> where
  they differ from those above. Its state has the flag \<^verbatim>\<open>running\<close>, which is true at
  the start; no statement of the file assigns it.
\<close>

datatype log_msg_srv =
    SrvStarting
  | SrvFetching
  | SrvLoaded jsstring nat
  | SrvApiFailed jsstring
  | SrvView nat nat
  | SrvViewFailed jsstring
  | SrvNoVersions
  | SrvDownloading jsstring "jsstring option" "jsstring option" jsstring
  | SrvDownloadOk nat jsstring nat
  | SrvDownloadFailed jsstring
  | SrvReading real
  | SrvCycleError jsstring
  | SrvNext real

record download_record_srv =
  srv_filename :: jsstring
  srv_loader :: "jsstring option"
  srv_gameVer :: "jsstring option"
  srv_version :: jsstring
  srv_sizeKB :: nat
  srv_ts :: jsstring

record state_srv =
  views_srv :: nat
  downloads_srv :: nat
  errors_srv :: nat
  running :: bool
  lastView_srv :: "jsstring option"
  lastDl_srv :: "download_record_srv option"
  lastError_srv :: "jsstring option"
  log_srv :: "(log_msg_srv \<times> log_type) list"
  versions_srv :: "version list"
  projectData_srv :: "project option"

definition initial_state_srv :: state_srv where
  "initial_state_srv =
     \<lparr>views_srv = 0, downloads_srv = 0, errors_srv = 0, running = True,
      lastView_srv = None, lastDl_srv = None, lastError_srv = None,
      log_srv = [], versions_srv = [], projectData_srv = None\<rparr>"

text \<open>\<^verbatim>\<open>log(msg, type)\<close> of \<^verbatim>\<open>server.js\<close>: the list keeps 100 entries.\<close>

definition log_add_srv :: "log_msg_srv \<Rightarrow> log_type \<Rightarrow> state_srv \<Rightarrow> state_srv" where
  "log_add_srv m t s =
     (let l = (m, t) # log_srv s
      in s\<lparr>log_srv := (if length l > 100 then butlast l else l)\<rparr>)"

definition jitter_srv :: "real \<Rightarrow> real \<Rightarrow> real" where
  "jitter_srv ms r = ms + (r - 1 / 2) * ms * (3 / 10)"

definition INTERVAL_MS_srv :: real where
  "INTERVAL_MS_srv = 10000"

definition humanReadDelay :: "real \<Rightarrow> real" where
  "humanReadDelay r = max 4000 (min 15000 (8000 + (r - 1 / 2) * 8000))"

text \<open>
  \<^verbatim>\<open>loadVersions()\<close> of \<^verbatim>\<open>server.js\<close>: the \<^verbatim>\<open>try\<close> block, with the state at the throw,
  and the \<^verbatim>\<open>catch\<close> clause, which logs and throws the exception again.
\<close>

definition loadVersions_try :: "env \<Rightarrow> state_srv \<Rightarrow> (exn + unit) \<times> state_srv" where
  "loadVersions_try env s =
     (case apiFetch env of
        Inl e \<Rightarrow> (Inl e, s)
      | Inr (projRes, versRes) \<Rightarrow>
          if \<not> res_ok projRes
          then (Inl (Error (ascii ''Project API: '' @ dec (res_status projRes))), s)
          else if \<not> res_ok versRes
          then (Inl (Error (ascii ''Versions API: '' @ dec (res_status versRes))), s)
          else (case res_body projRes of
                  Inl e \<Rightarrow> (Inl e, s)
                | Inr pd \<Rightarrow>
                    (let s1 = s\<lparr>projectData_srv := Some pd\<rparr>
                     in case res_body versRes of
                          Inl e \<Rightarrow> (Inl e, s1)
                        | Inr NotArray \<Rightarrow>
                            (Inl (TypeError (ascii ''all.filter is not a function'')), s1)
                        | Inr (Versions all) \<Rightarrow>
                            (let s2 = s1\<lparr>versions_srv := filter (\<lambda>v. files v \<noteq> []) all\<rparr>
                             in (Inr (),
                                 log_add_srv (SrvLoaded (title pd) (length (versions_srv s2)))
                                   LOk s2)))))"

definition loadVersions_srv :: "env \<Rightarrow> state_srv \<Rightarrow> (exn + unit) \<times> state_srv" where
  "loadVersions_srv env s =
     (if versions_srv s \<noteq> [] then (Inr (), s)
      else
        (case loadVersions_try env (log_add_srv SrvFetching LInfo s) of
           (Inl e, s1) \<Rightarrow> (Inl e, log_add_srv (SrvApiFailed (message e)) LWarn s1)
         | (Inr u, s1) \<Rightarrow> (Inr u, s1)))"

definition registerView_srv :: "env \<Rightarrow> state_srv \<Rightarrow> bool \<times> state_srv" where
  "registerView_srv env s =
     (let failed = (\<lambda>e. (False, log_add_srv (SrvViewFailed (reason e)) LWarn s))
      in case viewFetch env of
           Inl e \<Rightarrow> failed e
         | Inr (status, body) \<Rightarrow>
             (case (case body of None \<Rightarrow> None | Some reads \<Rightarrow> read_page 0 reads) of
                Some e \<Rightarrow> failed e
              | None \<Rightarrow>
                  (let s1 = s\<lparr>views_srv := views_srv s + 1, lastView_srv := Some (now env)\<rparr>
                   in (True, log_add_srv (SrvView (views_srv s1) status) LOk s1))))"

text \<open>
  \<^verbatim>\<open>downloadFile()\<close> of \<^verbatim>\<open>server.js\<close>: one direct request; a failure is logged and
  counted in \<^verbatim>\<open>state.errors\<close>.
\<close>

definition downloadFile_srv :: "env \<Rightarrow> state_srv \<Rightarrow> (exn + bool) \<times> state_srv \<times> net_call list" where
  "downloadFile_srv env s =
     (if versions_srv s = [] then (Inr False, log_add_srv SrvNoVersions LWarn s, [])
      else
        (case randEl (versions_srv s) (rand_version env) of
           None \<Rightarrow>
             (Inl (TypeError (ascii ''Cannot read properties of undefined (reading 'files')'')),
              s, [])
         | Some ver \<Rightarrow>
             (case pick_file ver of
                None \<Rightarrow>
                  (Inl (TypeError (ascii ''Cannot read properties of undefined (reading 'url')'')),
                   s, [])
              | Some file \<Rightarrow>
                  (let loader = first_or (ascii ''unknown'') (loaders ver);
                       gameVer = first_or (ascii ''?'') (game_versions ver);
                       s1 = log_add_srv (SrvDownloading (filename file) loader gameVer
                                           (version_number ver)) LDl s
                   in case attempt (\<lambda>n. ascii ''Suspiciously small: '' @ dec n @ ascii '' bytes'')
                             (directDownload env (url file)) of
                        Inr n \<Rightarrow>
                          (let s2 = s1\<lparr>downloads_srv := downloads_srv s1 + 1,
                                       lastDl_srv := Some \<lparr>srv_filename = filename file,
                                                           srv_loader = loader,
                                                           srv_gameVer = gameVer,
                                                           srv_version = version_number ver,
                                                           srv_sizeKB = sizeKB n,
                                                           srv_ts = now env\<rparr>\<rparr>
                           in (Inr True,
                               log_add_srv (SrvDownloadOk (downloads_srv s2) (filename file)
                                              (sizeKB n)) LOk s2,
                               [DirectFetch (url file)]))
                      | Inl e \<Rightarrow>
                          (Inr False,
                           (log_add_srv (SrvDownloadFailed (reason e)) LErr s1)
                             \<lparr>errors_srv := errors_srv s1 + 1, lastError_srv := Some (reason e)\<rparr>,
                           [DirectFetch (url file)])))))"

definition cycle_body_srv :: "env \<Rightarrow> state_srv \<Rightarrow> exn option \<times> state_srv" where
  "cycle_body_srv env s =
     (case (if versions_srv s = [] then loadVersions_srv env s else (Inr (), s)) of
        (Inl e, s1) \<Rightarrow> (Some e, s1)
      | (Inr u, s1) \<Rightarrow>
          (let s2 = snd (registerView_srv env s1);
               readTime = humanReadDelay (rand_read env);
               s3 = log_add_srv (SrvReading readTime) LInfo s2
           in case downloadFile_srv env s3 of
                (Inl e, s4, net) \<Rightarrow> (Some e, s4)
              | (Inr ok, s4, net) \<Rightarrow> (None, s4)))"

text \<open>
  \<^verbatim>\<open>runCycle()\<close> of \<^verbatim>\<open>server.js\<close>: it returns at once, with no timer set, when the flag
  \<^verbatim>\<open>running\<close> is false.
\<close>

definition runCycle_srv :: "env \<Rightarrow> state_srv \<Rightarrow> state_srv \<times> real list" where
  "runCycle_srv env s =
     (if \<not> running s then (s, [])
      else
        (case cycle_body_srv env (log_add_srv SrvStarting LInfo s) of
           (thrown, s1) \<Rightarrow>
             (let s2 = (case thrown of
                          None \<Rightarrow> s1
                        | Some e \<Rightarrow>
                            (log_add_srv (SrvCycleError (message e)) LErr s1)
                              \<lparr>errors_srv := errors_srv s1 + 1,
                                lastError_srv := Some (message e)\<rparr>);
                  nextIn = jitter_srv INTERVAL_MS_srv (rand_next env)
              in (log_add_srv (SrvNext nextIn) LInfo s2, [nextIn]))))"

section \<open>Notions used in the statements\<close>

text \<open>
  The language of a pattern: the strings that it matches as a whole. \<open>lpow L k\<close> are
  the concatenations of \<open>k\<close> strings of \<open>L\<close>.
\<close>

fun lpow :: "jsstring set \<Rightarrow> nat \<Rightarrow> jsstring set" where
  "lpow L 0 = {[]}"
| "lpow L (Suc k) = {u @ v | u v. u \<in> L \<and> v \<in> lpow L k}"

primrec lang :: "rx \<Rightarrow> jsstring set" where
  "lang Digit = {[c] | c. is_digit c}"
| "lang (Lit a) = {[a]}"
| "lang (Seq r1 r2) = {u @ v | u v. u \<in> lang r1 \<and> v \<in> lang r2}"
| "lang (Rep m n r) = {u. \<exists>k. m \<le> k \<and> k \<le> n \<and> u \<in> lpow (lang r) k}"

text \<open>A string of \<open>lo\<close> to \<open>hi\<close> decimal digits.\<close>

definition digits :: "nat \<Rightarrow> nat \<Rightarrow> jsstring \<Rightarrow> bool" where
  "digits lo hi x = (lo \<le> length x \<and> length x \<le> hi \<and> list_all is_digit x)"

text \<open>
  The syntax that the pattern of the collector accepts, in words: four groups of one to
  three digits separated by dots, a colon, and a port of two to five digits.
\<close>

definition dotted_port :: "jsstring \<Rightarrow> bool" where
  "dotted_port t =
     (\<exists>a b c d p. t = a @ 46 # b @ 46 # c @ 46 # d @ 58 # p \<and>
        digits 1 3 a \<and> digits 1 3 b \<and> digits 1 3 c \<and> digits 1 3 d \<and> digits 2 5 p)"

text \<open>The text of a source that was fetched with success.\<close>

definition fetched_text :: "jsstring fetched \<Rightarrow> jsstring option" where
  "fetched_text r =
     (case r of
        Inl e \<Rightarrow> None
      | Inr res \<Rightarrow>
          if res_ok res then (case res_body res of Inl e \<Rightarrow> None | Inr text \<Rightarrow> Some text)
          else None)"

text \<open>A proxy that the loop of the refresher keeps: it passes the test and is truthy.\<close>

definition passes :: "env \<Rightarrow> jsstring \<Rightarrow> bool" where
  "passes env hp = (testProxy env hp \<and> hp \<noteq> [])"

text \<open>The candidates that a refresh tests: up to 80 of the shuffled candidates.\<close>

definition sampled :: "env \<Rightarrow> jsstring list" where
  "sampled env = take 80 (sort_random env (fetchProxyCandidates (fetchSource env)))"

text \<open>
  The exception, if any, that leaves the \<^verbatim>\<open>try\<close> block of the refresh that is called
  in state \<open>s\<close>.
\<close>

definition refresh_outcome :: "env \<Rightarrow> state \<Rightarrow> exn option" where
  "refresh_outcome env s = fst (snd (refresh_try env (refreshProxyPool_sync s)))"

text \<open>Whether the direct request for a URL gives a body that is good.\<close>

definition direct_ok :: "env \<Rightarrow> jsstring \<Rightarrow> bool" where
  "direct_ok env u =
     (case attempt (\<lambda>n. ascii ''Too small'') (directDownload env u) of
        Inl e \<Rightarrow> False
      | Inr n \<Rightarrow> True)"

text \<open>
  The requests of one download are none, one through a proxy, one direct, or one
  through a proxy and then one direct for the same URL.
\<close>

fun one_pair :: "net_call list \<Rightarrow> bool" where
  "one_pair [] = True"
| "one_pair [DirectFetch u] = True"
| "one_pair [ProxyFetch u p] = True"
| "one_pair [ProxyFetch u p, DirectFetch u'] = (u = u')"
| "one_pair net = False"

section \<open>Concrete scenarios\<close>

text \<open>An environment in which every request fails, and responses that are ok.\<close>

definition env_down :: env where
  "env_down =
     \<lparr>fetchSource = (\<lambda>src. Inl (Error (ascii ''fetch failed''))),
      sort_random = (\<lambda>xs. xs),
      probe = (\<lambda>hp. Inl (Error (ascii ''fetch failed''))),
      fault = (\<lambda>k. None),
      apiFetch = Inl (Error (ascii ''fetch failed'')),
      viewFetch = Inl (Error (ascii ''fetch failed'')),
      proxyDownload = (\<lambda>u hp. Inl (Error (ascii ''fetch failed''))),
      directDownload = (\<lambda>u. Inl (Error (ascii ''fetch failed''))),
      rand_version = 0, rand_read = 0, rand_next = 0,
      now = ascii ''2024-01-01T00:00:00.000Z''\<rparr>"

definition ok_response :: "'b \<Rightarrow> 'b fetched" where
  "ok_response b = Inr \<lparr>res_ok = True, res_status = 200, res_body = Inr b\<rparr>"

text \<open>A pool of three proxies and a pool of one.\<close>

definition pool3 :: state where
  "pool3 = initial_state
     \<lparr>proxyPool := [ascii ''1.1.1.1:80'', ascii ''2.2.2.2:80'', ascii ''3.3.3.3:80''],
      proxyWorking := 3\<rparr>"

definition pool1 :: state where
  "pool1 = initial_state\<lparr>proxyPool := [ascii ''1.2.3.4:8080''], proxyWorking := 1\<rparr>"

text \<open>
  The first source serves 45 addresses, \<^verbatim>\<open>10.0.0.1:8080\<close> to \<^verbatim>\<open>10.0.0.45:8080\<close>, one
  on a line, and the other sources fail; the shuffle leaves the candidates in their
  order and every probe succeeds.
\<close>

definition body45 :: jsstring where
  "body45 = concat (map (\<lambda>n. ascii ''10.0.0.'' @ dec n @ ascii '':8080'' @ [10]) [1..<46])"

definition env45 :: env where
  "env45 = env_down
     \<lparr>fetchSource := (\<lambda>src. if src = hd PROXY_SOURCES then ok_response body45
                             else Inl (Error (ascii ''fetch failed''))),
      probe := (\<lambda>hp. ok_response True)\<rparr>"

text \<open>The same, but the runtime raises an exception while the third batch is awaited.\<close>

definition env45_fault :: env where
  "env45_fault =
     env45\<lparr>fault := (\<lambda>k. if k = 3 then Some (Error (ascii ''out of memory'')) else None)\<rparr>"

text \<open>A state in which a refresh is in progress.\<close>

definition refreshing3 :: state where
  "refreshing3 = pool3\<lparr>proxyRefreshing := True\<rparr>"

text \<open>Every source serves the same text.\<close>

definition serve :: "jsstring \<Rightarrow> jsstring \<Rightarrow> jsstring fetched" where
  "serve text src = ok_response text"

text \<open>
  The version list has the one file \<^verbatim>\<open>mod-1.0.jar\<close>, the pool the one proxy
  \<^verbatim>\<open>1.2.3.4:8080\<close>; the proxy answers with a body of 50 bytes, the direct request with
  one of 2048 bytes.
\<close>

definition jar_file :: dl_file where
  "jar_file = \<lparr>url = ascii ''https://cdn.modrinth.com/data/aurelium/mod-1.0.jar'',
                filename = ascii ''mod-1.0.jar'', primary = True\<rparr>"

definition jar_version :: version where
  "jar_version = \<lparr>files = [jar_file], loaders = Some [ascii ''paper''],
                   game_versions = Some [ascii ''1.20.4''], version_number = ascii ''1.0''\<rparr>"

definition jar_state :: state where
  "jar_state = pool1\<lparr>versions := [jar_version]\<rparr>"

definition jar_env :: env where
  "jar_env = env_down\<lparr>proxyDownload := (\<lambda>u hp. ok_response 50),
                        directDownload := (\<lambda>u. ok_response 2048)\<rparr>"

section \<open>Simplifier setup\<close>

text \<open>The equation of \<open>dec\<close> unfolds without end on a variable.\<close>

declare dec.simps [simp del]

section \<open>Proxy pool: rotation and eviction\<close>

lemma nextProxy_Cons:
  "proxyPool s = p # ps \<Longrightarrow> nextProxy s = (Some p, s\<lparr>proxyPool := ps @ [p]\<rparr>)"
  by (simp add: nextProxy_def)

lemma checkouts_take:
  "n \<le> length (proxyPool s) \<Longrightarrow>
     checkouts n s = (map Some (take n (proxyPool s)),
                      s\<lparr>proxyPool := drop n (proxyPool s) @ take n (proxyPool s)\<rparr>)"
proof (induction n arbitrary: s)
  case 0
  then show ?case by simp
next
  case (Suc n)
  then obtain p ps where pool: "proxyPool s = p # ps" by (cases "proxyPool s") auto
  let ?s1 = "s\<lparr>proxyPool := ps @ [p]\<rparr>"
  from Suc.prems pool have n: "n \<le> length ps" by simp
  then have "n \<le> length (proxyPool ?s1)" by simp
  from Suc.IH [OF this] n show ?case
    by (simp add: nextProxy_Cons [OF pool] pool)
qed

lemma nextProxy_set: "set (proxyPool (snd (nextProxy s))) = set (proxyPool s)"
  by (auto simp: nextProxy_def split: list.splits)

lemma checkouts_subset: "set (fst (checkouts n s)) \<subseteq> insert None (Some ` set (proxyPool s))"
proof (induction n arbitrary: s)
  case 0
  then show ?case by simp
next
  case (Suc n)
  have "set (fst (checkouts n (snd (nextProxy s)))) \<subseteq> insert None (Some ` set (proxyPool s))"
    using Suc [of "snd (nextProxy s)"] by (simp add: nextProxy_set)
  moreover have "fst (nextProxy s) \<in> insert None (Some ` set (proxyPool s))"
    by (auto simp: nextProxy_def split: list.splits)
  ultimately show ?case
    by (auto simp: split_beta)
qed

lemma update_single: "proxyPool s = [m] \<Longrightarrow> s\<lparr>proxyPool := [m]\<rparr> = s"
  by (cases s) simp

lemma checkouts_single: "proxyPool s = [m] \<Longrightarrow> checkouts n s = (replicate n (Some m), s)"
  by (induction n) (simp_all add: nextProxy_def update_single)

text \<open>
  C5. Round robin: on a pool of \<open>N\<close> distinct members, with no eviction and no
  replacement in between, \<open>N\<close> calls of \<^verbatim>\<open>nextProxy()\<close> in a row return the members of
  the pool in its order, each exactly once, and leave the pool as it was; each call
  returns the head of the pool and moves it to the back.
\<close>

theorem round_robin:
  assumes "distinct (proxyPool s)"
  shows "fst (checkouts (length (proxyPool s)) s) = map Some (proxyPool s)
       \<and> distinct (fst (checkouts (length (proxyPool s)) s))
       \<and> snd (checkouts (length (proxyPool s)) s) = s
       \<and> (\<forall>p ps. proxyPool s = p # ps \<longrightarrow> nextProxy s = (Some p, s\<lparr>proxyPool := ps @ [p]\<rparr>))"
  using assms
  by (simp add: checkouts_take distinct_map nextProxy_def)

theorem round_robin_witness:
  "distinct (proxyPool pool3)
   \<and> fst (checkouts 3 pool3)
        = [Some (ascii ''1.1.1.1:80''), Some (ascii ''2.2.2.2:80''), Some (ascii ''3.3.3.3:80'')]
   \<and> snd (checkouts 3 pool3) = pool3
   \<and> nextProxy pool3
        = (Some (ascii ''1.1.1.1:80''),
           pool3\<lparr>proxyPool := [ascii ''2.2.2.2:80'', ascii ''3.3.3.3:80'', ascii ''1.1.1.1:80'']\<rparr>)"
proof -
  have p: "proxyPool pool3 = [ascii ''1.1.1.1:80'', ascii ''2.2.2.2:80'', ascii ''3.3.3.3:80'']"
    by (simp add: pool3_def)
  have l: "length (proxyPool pool3) = 3"
    by (simp add: p)
  have d: "distinct (proxyPool pool3)"
    by (simp add: p ascii_def)
  from round_robin [OF d] d show ?thesis
    unfolding l unfolding p by (simp del: checkouts.simps)
qed

text \<open>
  C8. The eviction of \<open>x\<close> removes every occurrence of \<open>x\<close> from the pool, so no call of
  \<^verbatim>\<open>nextProxy()\<close> after it returns \<open>x\<close>, however many follow (only a later refresh,
  which replaces the pool, can bring \<open>x\<close> back). Where \<open>x\<close> is not in the pool the
  eviction leaves the pool as it is, and the whole state when \<^verbatim>\<open>proxyWorking\<close> is the
  size of the pool.
\<close>

theorem evict_then_checkout:
  "Some x \<notin> set (fst (checkouts n (evict x s)))
   \<and> proxyPool (evict x s) = filter (\<lambda>p. p \<noteq> x) (proxyPool s)
   \<and> x \<notin> set (proxyPool (evict x s))
   \<and> (x \<notin> set (proxyPool s) \<longrightarrow> proxyPool (evict x s) = proxyPool s)
   \<and> (x \<notin> set (proxyPool s) \<and> proxyWorking s = length (proxyPool s) \<longrightarrow> evict x s = s)"
proof -
  have 1: "x \<notin> set (proxyPool (evict x s))"
    by (simp add: evict_def Let_def)
  with checkouts_subset [of n "evict x s"] have "Some x \<notin> set (fst (checkouts n (evict x s)))"
    by auto
  moreover have "x \<notin> set (proxyPool s) \<Longrightarrow> filter (\<lambda>p. p \<noteq> x) (proxyPool s) = proxyPool s"
    by (induction "proxyPool s") (auto simp: filter_id_conv)
  ultimately show ?thesis using 1
    by (auto simp: evict_def Let_def)
qed

theorem evict_then_checkout_witness:
  "Some (ascii ''2.2.2.2:80'') \<notin> set (fst (checkouts 5 (evict (ascii ''2.2.2.2:80'') pool3)))
   \<and> proxyPool (evict (ascii ''2.2.2.2:80'') pool3) = [ascii ''1.1.1.1:80'', ascii ''3.3.3.3:80'']
   \<and> ascii ''9.9.9.9:80'' \<notin> set (proxyPool pool3)
   \<and> evict (ascii ''9.9.9.9:80'') pool3 = pool3"
  using evict_then_checkout [of "ascii ''2.2.2.2:80''" 5 pool3]
    evict_then_checkout [of "ascii ''9.9.9.9:80''" 0 pool3]
  by (simp add: pool3_def ascii_def initial_state_def)

text \<open>
  C9. On an empty pool \<^verbatim>\<open>nextProxy()\<close> returns \<^verbatim>\<open>null\<close> and changes nothing. On a pool
  of one member every call returns that member and leaves the state, and so the size
  of the pool, as it was.
\<close>

theorem checkout_empty_single:
  "(proxyPool s = [] \<longrightarrow> nextProxy s = (None, s))
   \<and> (proxyPool s = [m] \<longrightarrow>
        nextProxy s = (Some m, s)
        \<and> checkouts n s = (replicate n (Some m), s)
        \<and> length (proxyPool (snd (checkouts n s))) = 1)"
  by (simp add: checkouts_single nextProxy_def update_single)

theorem checkout_empty_single_witness:
  "proxyPool initial_state = [] \<and> nextProxy initial_state = (None, initial_state)
   \<and> proxyPool pool1 = [ascii ''1.2.3.4:8080'']
   \<and> checkouts 4 pool1 = (replicate 4 (Some (ascii ''1.2.3.4:8080'')), pool1)"
  using checkout_empty_single [of initial_state "ascii ''1.2.3.4:8080''" 4]
    checkout_empty_single [of pool1 "ascii ''1.2.3.4:8080''" 4]
  by (simp add: pool1_def initial_state_def)

section \<open>Candidate collector\<close>

subsection \<open>What the pattern matches\<close>

lemma set_iter:
  assumes "\<And>s. set (f s) = {t. \<exists>u\<in>L. s = u @ t}"
  shows "set (iter f k ss) = {t. \<exists>s\<in>set ss. \<exists>u\<in>lpow L k. s = u @ t}"
proof (induction k arbitrary: ss)
  case 0
  then show ?case by auto
next
  case (Suc k)
  show ?case
    apply (simp add: Suc assms)
    apply (rule set_eqI)
    apply simp
    apply (rule iffI)
     apply (metis append.assoc)
    apply (metis append.assoc)
    done
qed

lemma set_rems: "set (rems r s) = {t. \<exists>u\<in>lang r. s = u @ t}"
proof (induction r arbitrary: s)
  case Digit
  then show ?case by (cases s) auto
next
  case (Lit x)
  then show ?case by (cases s) auto
next
  case (Seq r1 r2)
  then show ?case by (auto, metis append.assoc, metis append.assoc)
next
  case (Rep m n r)
  show ?case
  proof -
    have "set (rems (Rep m n r) s)
            = (\<Union>k\<in>set [m..<Suc n]. {t. \<exists>u\<in>lpow (lang r) k. s = u @ t})"
      by (simp add: set_iter [where L = "lang r", OF Rep] del: set_upt upt_Suc)
    also have "\<dots> = {t. \<exists>u\<in>lang (Rep m n r). s = u @ t}"
      by (fastforce simp: less_Suc_eq_le simp del: lpow.simps)
    finally show ?thesis .
  qed
qed

lemma regex_test_lang: "regex_test r s \<longleftrightarrow> s \<in> lang r"
  by (auto simp: regex_test_def set_rems)

lemma lpow_Digit: "lpow {[c] |c. is_digit c} k = {x. length x = k \<and> list_all is_digit x}"
proof (induction k)
  case 0
  then show ?case by auto
next
  case (Suc k)
  show ?case
  proof (rule set_eqI, rule iffI)
    fix x assume "x \<in> lpow {[c] |c. is_digit c} (Suc k)"
    then show "x \<in> {x. length x = Suc k \<and> list_all is_digit x}"
      by (auto simp: Suc)
  next
    fix x assume "x \<in> {x. length x = Suc k \<and> list_all is_digit x}"
    then obtain a v where x: "x = [a] @ v" and a: "is_digit a"
      and v: "length v = k" "list_all is_digit v"
      by (cases x) auto
    from v have "v \<in> lpow {[c] |c. is_digit c} k" by (simp add: Suc)
    with a show "x \<in> lpow {[c] |c. is_digit c} (Suc k)"
      unfolding x lpow.simps by blast
  qed
qed

lemma lang_Rep_Digit: "lang (Rep m n Digit) = {x. digits m n x}"
  by (auto simp: lpow_Digit digits_def)

lemma lpow3: "lpow L 3 = {u @ v @ w | u v w. u \<in> L \<and> v \<in> L \<and> w \<in> L}"
  by (auto simp: numeral_3_eq_3)

lemma lang_Rep_exact: "lang (Rep k k r) = lpow (lang r) k"
  by (auto simp del: lpow.simps)

lemma lang_Lit_Seq: "lang (Seq (Lit a) r) = {a # v | v. v \<in> lang r}"
  by auto

lemma lang_dot_digits:
  "x \<in> lang (Seq (Lit 46) (Rep 1 3 Digit)) \<longleftrightarrow> (\<exists>b. x = 46 # b \<and> digits 1 3 b)"
  unfolding lang_Lit_Seq lang_Rep_Digit by blast

lemma lang_octets:
  "v \<in> lang (Rep 3 3 (Seq (Lit 46) (Rep 1 3 Digit))) \<longleftrightarrow>
     (\<exists>b c d. v = 46 # b @ 46 # c @ 46 # d \<and> digits 1 3 b \<and> digits 1 3 c \<and> digits 1 3 d)"
  (is "?l \<longleftrightarrow> ?r")
proof
  assume ?l
  then obtain x y z where v: "v = x @ y @ z"
    and "x \<in> lang (Seq (Lit 46) (Rep 1 3 Digit))"
    and "y \<in> lang (Seq (Lit 46) (Rep 1 3 Digit))"
    and "z \<in> lang (Seq (Lit 46) (Rep 1 3 Digit))"
    unfolding lang_Rep_exact lpow3 by blast
  then obtain b c d where "x = 46 # b" "y = 46 # c" "z = 46 # d"
    and ds: "digits 1 3 b" "digits 1 3 c" "digits 1 3 d"
    unfolding lang_dot_digits by blast
  with v have "v = 46 # b @ 46 # c @ 46 # d" by simp
  with ds show ?r by blast
next
  assume ?r
  then obtain b c d where v: "v = (46 # b) @ (46 # c) @ (46 # d)"
    and ds: "digits 1 3 b" "digits 1 3 c" "digits 1 3 d"
    by auto
  from ds have "46 # b \<in> lang (Seq (Lit 46) (Rep 1 3 Digit))"
    "46 # c \<in> lang (Seq (Lit 46) (Rep 1 3 Digit))"
    "46 # d \<in> lang (Seq (Lit 46) (Rep 1 3 Digit))"
    unfolding lang_dot_digits by blast+
  then show ?l
    unfolding lang_Rep_exact lpow3 v by blast
qed

lemma lang_port:
  "w \<in> lang (Seq (Lit 58) (Rep 2 5 Digit)) \<longleftrightarrow> (\<exists>p. w = 58 # p \<and> digits 2 5 p)"
  unfolding lang_Lit_Seq lang_Rep_Digit by blast

lemma lang_candidate_rx: "t \<in> lang candidate_rx \<longleftrightarrow> dotted_port t"
  (is "?l \<longleftrightarrow> ?r")
proof
  assume ?l
  then obtain u v w where t: "t = u @ v @ w"
    and u: "u \<in> lang (Rep 1 3 Digit)"
    and v: "v \<in> lang (Rep 3 3 (Seq (Lit 46) (Rep 1 3 Digit)))"
    and w: "w \<in> lang (Seq (Lit 58) (Rep 2 5 Digit))"
    unfolding candidate_rx_def lang.simps(3) [of "Rep 1 3 Digit"]
      lang.simps(3) [of "Rep 3 3 (Seq (Lit 46) (Rep 1 3 Digit))"]
    by blast
  from v obtain b c d where v': "v = 46 # b @ 46 # c @ 46 # d"
    and ds: "digits 1 3 b" "digits 1 3 c" "digits 1 3 d"
    unfolding lang_octets by blast
  from w obtain p where w': "w = 58 # p" and p: "digits 2 5 p"
    unfolding lang_port by blast
  from u have a: "digits 1 3 u" unfolding lang_Rep_Digit by simp
  have "t = u @ 46 # b @ 46 # c @ 46 # d @ 58 # p"
    by (simp add: t v' w')
  with a ds p show ?r unfolding dotted_port_def by blast
next
  assume ?r
  then obtain a b c d p where t: "t = a @ (46 # b @ 46 # c @ 46 # d) @ (58 # p)"
    and a: "digits 1 3 a" and ds: "digits 1 3 b" "digits 1 3 c" "digits 1 3 d"
    and p: "digits 2 5 p"
    unfolding dotted_port_def by auto
  from a have 1: "a \<in> lang (Rep 1 3 Digit)" unfolding lang_Rep_Digit by simp
  from ds have 2: "46 # b @ 46 # c @ 46 # d \<in> lang (Rep 3 3 (Seq (Lit 46) (Rep 1 3 Digit)))"
    unfolding lang_octets by blast
  from p have 3: "58 # p \<in> lang (Seq (Lit 58) (Rep 2 5 Digit))"
    unfolding lang_port by blast
  from 1 2 3 show ?l
    unfolding candidate_rx_def t lang.simps(3) [of "Rep 1 3 Digit"]
      lang.simps(3) [of "Rep 3 3 (Seq (Lit 46) (Rep 1 3 Digit))"]
    by blast
qed

lemma regex_test_dotted_port: "regex_test candidate_rx t \<longleftrightarrow> dotted_port t"
  by (simp add: regex_test_lang lang_candidate_rx)

subsection \<open>What the collector keeps\<close>

lemma set_set_add: "set (set_add acc t) = insert t (set acc)"
  by (auto simp: set_add_def)

lemma distinct_set_add: "distinct acc \<Longrightarrow> distinct (set_add acc t)"
  by (simp add: set_add_def)

lemma add_lines_Cons:
  "add_lines acc (l # ls) =
     add_lines (if regex_test candidate_rx (strip_line l) then set_add acc (strip_line l) else acc) ls"
  by (simp add: add_lines_def Let_def)

lemma set_add_lines:
  "set (add_lines acc ls) =
     set acc \<union> {strip_line l | l. l \<in> set ls \<and> dotted_port (strip_line l)}"
proof (induction ls arbitrary: acc)
  case Nil
  then show ?case by (simp add: add_lines_def)
next
  case (Cons l ls)
  show ?case
    unfolding add_lines_Cons Cons.IH
    by (auto simp: set_set_add regex_test_dotted_port)
qed

lemma distinct_add_lines: "distinct acc \<Longrightarrow> distinct (add_lines acc ls)"
proof (induction ls arbitrary: acc)
  case Nil
  then show ?case by (simp add: add_lines_def)
next
  case (Cons l ls)
  show ?case
    unfolding add_lines_Cons
    by (rule Cons.IH) (simp add: distinct_set_add Cons.prems)
qed

lemma set_add_source:
  "set (add_source r acc) =
     set acc \<union> {strip_line l | l text. fetched_text r = Some text
                    \<and> l \<in> set (split_lines text) \<and> dotted_port (strip_line l)}"
  by (auto simp: add_source_def fetched_text_def set_add_lines split: sum.splits)

lemma distinct_add_source: "distinct acc \<Longrightarrow> distinct (add_source r acc)"
  by (auto simp: add_source_def distinct_add_lines split: sum.splits)

lemma set_fold_sources:
  "set (fold (\<lambda>src acc. add_source (fetch src) acc) srcs acc) =
     set acc \<union> {strip_line l | l src text. src \<in> set srcs
                    \<and> fetched_text (fetch src) = Some text
                    \<and> l \<in> set (split_lines text) \<and> dotted_port (strip_line l)}"
proof (induction srcs arbitrary: acc)
  case Nil
  then show ?case by simp
next
  case (Cons src srcs)
  show ?case
    unfolding fold_simps Cons.IH set_add_source
    by auto
qed

lemma distinct_fold_sources:
  "distinct acc \<Longrightarrow> distinct (fold (\<lambda>src acc. add_source (fetch src) acc) srcs acc)"
  by (induction srcs arbitrary: acc) (simp_all add: distinct_add_source)

text \<open>
  C2, as the code has it. The collector keeps a line, with its comment stripped and
  trimmed, if and only if it is four groups of one to three digits separated by dots,
  a colon and a port of two to five digits. The groups are not checked against 255
  and a port of one digit is refused: \<^verbatim>\<open>1.2.3.4\<close>, \<^verbatim>\<open>1.2.3.4:\<close> and \<^verbatim>\<open>1.2.3.4:8\<close> are left
  out, \<^verbatim>\<open>1.2.3.4:8080\<close> and \<^verbatim>\<open>999.1.2.3:80\<close> are kept. The result has no string twice.
\<close>

theorem candidates_retained:
  "set (fetchProxyCandidates fetch) =
     {strip_line l | l src text. src \<in> set PROXY_SOURCES
        \<and> fetched_text (fetch src) = Some text
        \<and> l \<in> set (split_lines text) \<and> dotted_port (strip_line l)}
   \<and> distinct (fetchProxyCandidates fetch)
   \<and> regex_test candidate_rx t = dotted_port t
   \<and> dotted_port (ascii ''1.2.3.4:8080'')
   \<and> dotted_port (ascii ''999.1.2.3:80'')
   \<and> \<not> dotted_port (ascii ''1.2.3.4'')
   \<and> \<not> dotted_port (ascii ''1.2.3.4:'')
   \<and> \<not> dotted_port (ascii ''1.2.3.4:8'')"
proof -
  have "regex_test candidate_rx (ascii ''1.2.3.4:8080'')"
    "regex_test candidate_rx (ascii ''999.1.2.3:80'')"
    "\<not> regex_test candidate_rx (ascii ''1.2.3.4'')"
    "\<not> regex_test candidate_rx (ascii ''1.2.3.4:'')"
    "\<not> regex_test candidate_rx (ascii ''1.2.3.4:8'')"
    by code_simp+
  then show ?thesis
    unfolding fetchProxyCandidates_def set_fold_sources
    by (simp add: regex_test_dotted_port distinct_fold_sources)
qed

text \<open>
  Against C2 as stated: where every source serves the line \<^verbatim>\<open>999.1.2.3:80\<close>, whose
  first group is above 255, the collector keeps it; and it keeps nothing where every
  source serves \<^verbatim>\<open>1.2.3.4:8\<close>, whose port has one digit.
\<close>

theorem collector_keeps_999:
  "fetchProxyCandidates (serve (ascii ''999.1.2.3:80'')) = [ascii ''999.1.2.3:80'']
   \<and> fetchProxyCandidates (serve (ascii ''1.2.3.4:8'')) = []"
  by code_simp

section \<open>Pool refresher\<close>

declare testBatches.simps [simp del]

lemma log_add_fields [simp]:
  "proxyPool (log_add m t s) = proxyPool s"
  "proxyTested (log_add m t s) = proxyTested s"
  "proxyWorking (log_add m t s) = proxyWorking s"
  "proxyRefreshing (log_add m t s) = proxyRefreshing s"
  "lastProxyRefresh (log_add m t s) = lastProxyRefresh s"
  "views (log_add m t s) = views s"
  "downloads (log_add m t s) = downloads s"
  "dlFailed (log_add m t s) = dlFailed s"
  "errors (log_add m t s) = errors s"
  "cycles (log_add m t s) = cycles s"
  "lastView (log_add m t s) = lastView s"
  "lastDl (log_add m t s) = lastDl s"
  "lastError (log_add m t s) = lastError s"
  "versions (log_add m t s) = versions s"
  "projectData (log_add m t s) = projectData s"
  by (simp_all add: log_add_def Let_def)

lemma log_add_only_log: "(log_add m t s)\<lparr>log_list := l\<rparr> = s\<lparr>log_list := l\<rparr>"
  by (simp add: log_add_def Let_def)

lemma kept_results:
  "map the (filter truthy (map (\<lambda>hp. if testProxy env hp then Some hp else None) batch))
     = filter (passes env) batch"
  by (induction batch) (auto simp: truthy_def passes_def)

lemma testBatches_step:
  assumes "i < length pool \<and> length working < 35"
    and "testBatches env pool i working net = (Inr w, net')"
  shows "fault env (Suc (i div BATCH)) = None"
    and "testBatches env pool (i + BATCH) (working @ filter (passes env) (take BATCH (drop i pool)))
           (net @ map ProbeFetch (take BATCH (drop i pool))) = (Inr w, net')"
proof -
  from assms show nf: "fault env (Suc (i div BATCH)) = None"
    by (auto simp: testBatches.simps [of env pool i] Let_def split: option.splits)
  with assms show "testBatches env pool (i + BATCH)
      (working @ filter (passes env) (take BATCH (drop i pool)))
      (net @ map ProbeFetch (take BATCH (drop i pool))) = (Inr w, net')"
    by (simp add: testBatches.simps [of env pool i] Let_def kept_results)
qed

lemma testBatches_working:
  "testBatches env pool i working net = (Inr w, net') \<Longrightarrow>
     \<exists>k. w = working @ filter (passes env) (take k (drop i pool))
        \<and> (length pool \<le> i + k \<or> 35 \<le> length w)"
proof (induction env pool i working net rule: testBatches.induct)
  case (1 env pool i working net)
  show ?case
  proof (cases "i < length pool \<and> length working < 35")
    case False
    with "1.prems" have "w = working"
      by (simp add: testBatches.simps [of env pool i])
    with False show ?thesis
      by (intro exI [of _ 0]) auto
  next
    case True
    let ?batch = "take BATCH (drop i pool)"
    note nf = testBatches_step(1) [OF True "1.prems"]
    note rec = testBatches_step(2) [OF True "1.prems"]
    from "1.IH" [OF True refl refl nf refl, unfolded kept_results, OF rec]
    obtain k where w: "w = (working @ filter (passes env) ?batch)
                          @ filter (passes env) (take k (drop (i + BATCH) pool))"
      and stop: "length pool \<le> i + BATCH + k \<or> 35 \<le> length w"
      by blast
    have "take (BATCH + k) (drop i pool) = ?batch @ take k (drop (i + BATCH) pool)"
      by (simp add: take_add add.commute)
    with w have "w = working @ filter (passes env) (take (BATCH + k) (drop i pool))"
      by simp
    with stop show ?thesis
      by (intro exI [of _ "BATCH + k"]) (simp add: add.assoc)
  qed
qed

lemma testBatches_bound:
  "testBatches env pool i working net = (Inr w, net') \<Longrightarrow> length working \<le> 49
     \<Longrightarrow> length w \<le> 49"
proof (induction env pool i working net rule: testBatches.induct)
  case (1 env pool i working net)
  show ?case
  proof (cases "i < length pool \<and> length working < 35")
    case False
    with "1.prems" show ?thesis
      by (simp add: testBatches.simps [of env pool i])
  next
    case True
    let ?batch = "take BATCH (drop i pool)"
    note nf = testBatches_step(1) [OF True "1.prems"(1)]
    note rec = testBatches_step(2) [OF True "1.prems"(1)]
    have "length (filter (passes env) ?batch) \<le> 15"
      by (rule order_trans [OF length_filter_le]) (simp add: BATCH_def)
    with True have "length (working @ filter (passes env) ?batch) \<le> 49"
      by simp
    from "1.IH" [OF True refl refl nf refl, unfolded kept_results, OF rec this]
    show ?thesis .
  qed
qed

lemma refresh_try_cases:
  "refresh_try env s = (s1, thrown, net) \<Longrightarrow>
     (case thrown of
        Some e \<Rightarrow> s1\<lparr>log_list := log_list s\<rparr> = s
      | None \<Rightarrow> \<exists>w net0. testBatches env (sampled env) 0 [] net0 = (Inr w, net)
                   \<and> proxyPool s1 = w \<and> proxyWorking s1 = length w
                   \<and> proxyTested s1 = length (sampled env)
                   \<and> lastProxyRefresh s1 = Some (now env)
                   \<and> proxyRefreshing s1 = proxyRefreshing s)"
  by (auto simp: refresh_try_def Let_def sampled_def log_add_only_log
           split: option.splits prod.splits sum.splits)

lemma refresh_thrown:
  assumes "\<not> proxyRefreshing s" and "refresh_outcome env s = Some e"
  shows "(fst (refreshProxyPool env s))\<lparr>log_list := log_list s\<rparr> = s"
    and "hd (log_list (fst (refreshProxyPool env s))) = (MsgRefreshError (message e), LErr)"
proof -
  let ?s0 = "refreshProxyPool_sync s"
  obtain s1 net where t: "refresh_try env ?s0 = (s1, Some e, net)"
    using assms(2) by (cases "refresh_try env ?s0") (auto simp: refresh_outcome_def)
  from refresh_try_cases [OF t] have s1: "s1\<lparr>log_list := log_list ?s0\<rparr> = ?s0"
    by simp
  have s0: "?s0\<lparr>log_list := log_list s, proxyRefreshing := False\<rparr> = s"
    using assms(1) by (simp add: refreshProxyPool_sync_def log_add_only_log)
  have r: "fst (refreshProxyPool env s)
             = (log_add (MsgRefreshError (message e)) LErr s1)\<lparr>proxyRefreshing := False\<rparr>"
    using assms(1) t by (simp add: refreshProxyPool_def refreshProxyPool_rest_def)
  have "(fst (refreshProxyPool env s))\<lparr>log_list := log_list s\<rparr>
          = (s1\<lparr>log_list := log_list ?s0\<rparr>)\<lparr>log_list := log_list s, proxyRefreshing := False\<rparr>"
    unfolding r by (simp add: log_add_def Let_def)
  also have "\<dots> = s" unfolding s1 by (rule s0)
  finally show "(fst (refreshProxyPool env s))\<lparr>log_list := log_list s\<rparr> = s" .
  show "hd (log_list (fst (refreshProxyPool env s))) = (MsgRefreshError (message e), LErr)"
    unfolding r by (auto simp: log_add_def Let_def)
qed

lemma refresh_completed:
  assumes "\<not> proxyRefreshing s" and "refresh_outcome env s = None"
  shows "\<exists>w net0 net. testBatches env (sampled env) 0 [] net0 = (Inr w, net)
           \<and> proxyPool (fst (refreshProxyPool env s)) = w
           \<and> proxyWorking (fst (refreshProxyPool env s)) = length w
           \<and> proxyTested (fst (refreshProxyPool env s)) = length (sampled env)
           \<and> lastProxyRefresh (fst (refreshProxyPool env s)) = Some (now env)"
proof -
  let ?s0 = "refreshProxyPool_sync s"
  obtain s1 net where t: "refresh_try env ?s0 = (s1, None, net)"
    using assms(2) by (cases "refresh_try env ?s0") (auto simp: refresh_outcome_def)
  have r: "fst (refreshProxyPool env s) = s1\<lparr>proxyRefreshing := False\<rparr>"
    using assms(1) t by (simp add: refreshProxyPool_def refreshProxyPool_rest_def)
  from refresh_try_cases [OF t] show ?thesis
    unfolding r by auto
qed

text \<open>The two runs of the scenarios, evaluated once.\<close>

lemma env45_run:
  "refresh_outcome env45 initial_state = None
   \<and> length (proxyPool (fst (refreshProxyPool env45 initial_state))) = 45"
  by code_simp

lemma env45_fault_run:
  "refresh_outcome env45_fault pool3 = Some (Error (ascii ''out of memory''))"
  by code_simp

lemma pool3_idle: "\<not> proxyRefreshing pool3"
  by (simp add: pool3_def initial_state_def)

text \<open>
  C6. Single flight: a call of \<^verbatim>\<open>refreshProxyPool()\<close> while a refresh is in progress
  returns at the guard. It sends no request and leaves the whole state, the pool
  included, as it is.
\<close>

theorem single_flight_noop:
  "proxyRefreshing s \<Longrightarrow> refreshProxyPool env s = (s, []) \<and> refreshProxyPool_sync s = s"
  by (simp add: refreshProxyPool_def refreshProxyPool_sync_def)

theorem single_flight_noop_witness:
  "proxyRefreshing refreshing3
   \<and> refreshProxyPool env45 refreshing3 = (refreshing3, [])
   \<and> refreshProxyPool_sync refreshing3 = refreshing3"
proof -
  have r: "proxyRefreshing refreshing3"
    by (simp add: refreshing3_def)
  from single_flight_noop [OF r, of env45] r show ?thesis
    by simp
qed

text \<open>
  C10. A call of \<^verbatim>\<open>refreshProxyPool()\<close> that passes the guard sets the flag, and
  the flag is false again when the call returns, whether the \<^verbatim>\<open>try\<close> block
  completed or an exception left it.
\<close>

theorem flag_reset:
  "\<not> proxyRefreshing s \<Longrightarrow>
     proxyRefreshing (refreshProxyPool_sync s)
     \<and> \<not> proxyRefreshing (fst (refreshProxyPool_rest env (refreshProxyPool_sync s)))
     \<and> \<not> proxyRefreshing (fst (refreshProxyPool env s))"
  by (simp add: refreshProxyPool_def refreshProxyPool_rest_def refreshProxyPool_sync_def Let_def
        split: prod.splits)

theorem flag_reset_witness:
  "\<not> proxyRefreshing initial_state
   \<and> refresh_outcome env45 initial_state = None
   \<and> \<not> proxyRefreshing (fst (refreshProxyPool env45 initial_state))
   \<and> \<not> proxyRefreshing pool3
   \<and> refresh_outcome env45_fault pool3 = Some (Error (ascii ''out of memory''))
   \<and> \<not> proxyRefreshing (fst (refreshProxyPool env45_fault pool3))"
proof -
  have i: "\<not> proxyRefreshing initial_state"
    by (simp add: initial_state_def)
  from flag_reset [OF i, of env45] flag_reset [OF pool3_idle, of env45_fault]
    i pool3_idle env45_run env45_fault_run
  show ?thesis by simp
qed

text \<open>
  C3. When an exception leaves the \<^verbatim>\<open>try\<close> block of a refresh that passed the guard,
  the refresh changes nothing but the log: the pool and the counts and time stamp of
  the last refresh are those of before the call, the flag is false again, and the
  newest entry of the log is the error.
\<close>

theorem failed_refresh_keeps_pool:
  assumes "\<not> proxyRefreshing s" and "refresh_outcome env s = Some e"
  shows "proxyPool (fst (refreshProxyPool env s)) = proxyPool s
       \<and> proxyTested (fst (refreshProxyPool env s)) = proxyTested s
       \<and> proxyWorking (fst (refreshProxyPool env s)) = proxyWorking s
       \<and> lastProxyRefresh (fst (refreshProxyPool env s)) = lastProxyRefresh s
       \<and> (fst (refreshProxyPool env s))\<lparr>log_list := log_list s\<rparr> = s
       \<and> hd (log_list (fst (refreshProxyPool env s))) = (MsgRefreshError (message e), LErr)"
proof -
  note only_log = refresh_thrown(1) [OF assms]
  have f: "\<And>f::state \<Rightarrow> 'a. (\<And>x l. f (x\<lparr>log_list := l\<rparr>) = f x)
             \<Longrightarrow> f (fst (refreshProxyPool env s)) = f s"
    by (metis only_log)
  show ?thesis
    using only_log refresh_thrown(2) [OF assms]
      f [of proxyPool] f [of proxyTested] f [of proxyWorking] f [of lastProxyRefresh]
    by simp
qed

theorem failed_refresh_keeps_pool_witness:
  "\<not> proxyRefreshing pool3
   \<and> refresh_outcome env45_fault pool3 = Some (Error (ascii ''out of memory''))
   \<and> proxyPool (fst (refreshProxyPool env45_fault pool3))
        = [ascii ''1.1.1.1:80'', ascii ''2.2.2.2:80'', ascii ''3.3.3.3:80'']
   \<and> proxyWorking (fst (refreshProxyPool env45_fault pool3)) = 3"
  using failed_refresh_keeps_pool [OF pool3_idle env45_fault_run] pool3_idle env45_fault_run
  by (simp add: pool3_def)

text \<open>
  C1, as the code has it. The loop tests whole batches of 15 and looks at the number
  of working proxies between two batches only, so a refresh that completes installs
  at most 34 + 15 = 49 proxies (and at most the 80 that are sampled), not at most 35.
  What it installs is the whole result of the batches it tested: the proxies among the
  first \<open>k\<close> sampled candidates that passed, in their order, where testing stopped
  because the sample was exhausted or 35 were found. A refresh that an exception
  leaves keeps the old pool. There is no third outcome.
\<close>

theorem refresh_pool_bound:
  assumes "\<not> proxyRefreshing s"
  shows "(refresh_outcome env s = None \<longrightarrow>
            length (proxyPool (fst (refreshProxyPool env s))) \<le> 49
            \<and> length (proxyPool (fst (refreshProxyPool env s))) \<le> length (sampled env)
            \<and> length (sampled env) \<le> 80
            \<and> (\<exists>k. proxyPool (fst (refreshProxyPool env s))
                       = filter (passes env) (take k (sampled env))
                   \<and> (length (sampled env) \<le> k
                        \<or> 35 \<le> length (proxyPool (fst (refreshProxyPool env s)))))
            \<and> proxyWorking (fst (refreshProxyPool env s))
                 = length (proxyPool (fst (refreshProxyPool env s))))
       \<and> (refresh_outcome env s \<noteq> None \<longrightarrow>
            proxyPool (fst (refreshProxyPool env s)) = proxyPool s)"
proof (intro conjI impI)
  assume "refresh_outcome env s \<noteq> None"
  then obtain e where "refresh_outcome env s = Some e" by auto
  from refresh_thrown(1) [OF assms this]
  show "proxyPool (fst (refreshProxyPool env s)) = proxyPool s"
    by (metis state.select_convs(12) state.surjective state.update_convs(9))
next
  assume n: "refresh_outcome env s = None"
  from refresh_completed [OF assms n] obtain w net0 net
    where t: "testBatches env (sampled env) 0 [] net0 = (Inr w, net)"
      and p: "proxyPool (fst (refreshProxyPool env s)) = w"
      and pw: "proxyWorking (fst (refreshProxyPool env s)) = length w"
    by blast
  from testBatches_bound [OF t] show "length (proxyPool (fst (refreshProxyPool env s))) \<le> 49"
    by (simp add: p)
  from testBatches_working [OF t] obtain k
    where k: "w = filter (passes env) (take k (sampled env))"
      and stop: "length (sampled env) \<le> k \<or> 35 \<le> length w"
    by auto
  have "length w \<le> length (take k (sampled env))"
    unfolding k by (rule length_filter_le)
  then show "length (proxyPool (fst (refreshProxyPool env s))) \<le> length (sampled env)"
    by (simp add: p)
  show "length (sampled env) \<le> 80"
    by (simp add: sampled_def)
  from k stop show "\<exists>k. proxyPool (fst (refreshProxyPool env s))
                       = filter (passes env) (take k (sampled env))
                   \<and> (length (sampled env) \<le> k
                        \<or> 35 \<le> length (proxyPool (fst (refreshProxyPool env s))))"
    unfolding p by blast
  show "proxyWorking (fst (refreshProxyPool env s))
          = length (proxyPool (fst (refreshProxyPool env s)))"
    by (simp add: p pw)
qed

theorem refresh_pool_bound_witness:
  "\<not> proxyRefreshing initial_state
   \<and> refresh_outcome env45 initial_state = None
   \<and> length (proxyPool (fst (refreshProxyPool env45 initial_state))) \<le> 49
   \<and> \<not> proxyRefreshing pool3
   \<and> refresh_outcome env45_fault pool3 \<noteq> None
   \<and> proxyPool (fst (refreshProxyPool env45_fault pool3)) = proxyPool pool3"
proof -
  have i: "\<not> proxyRefreshing initial_state"
    by (simp add: initial_state_def)
  from refresh_pool_bound [OF i, of env45] refresh_pool_bound [OF pool3_idle, of env45_fault]
    i pool3_idle env45_run env45_fault_run
  show ?thesis by simp
qed

text \<open>
  Against C1 as stated: 45 candidates that all pass are tested in three batches, since
  30 < 35 after the second, and the refresh installs all 45 of them.
\<close>

theorem refresh_pool_exceeds_target:
  "\<not> proxyRefreshing initial_state
   \<and> refresh_outcome env45 initial_state = None
   \<and> length (proxyPool (fst (refreshProxyPool env45 initial_state))) = 45
   \<and> \<not> length (proxyPool (fst (refreshProxyPool env45 initial_state))) \<le> 35"
  using env45_run by (simp add: initial_state_def)

section \<open>Download\<close>

lemma reason_Error [simp]: "reason (Error m) = m" "message (Error m) = m"
  by (simp_all add: reason_def Error_def ascii_def)

lemma log_add_hd: "hd (log_list (log_add m t s)) = (m, t)"
  by (auto simp: log_add_def Let_def)

lemma log_add_Cons: "\<exists>l. log_list (log_add m t s) = (m, t) # l"
  by (cases "log_list s") (simp_all add: log_add_def Let_def)

lemma log_add_second:
  assumes "\<And>x. log_list (f x) = log_list x"
  shows "log_list (log_add m2 t2 (f (log_add m1 t1 s))) ! 1 = (m1, t1)"
proof -
  obtain l where l: "log_list (log_add m1 t1 s) = (m1, t1) # l"
    using log_add_Cons by blast
  show ?thesis
    by (auto simp: log_add_def [of m2 t2] Let_def assms l nth_butlast)
qed

lemma direct_attempt_facts:
  "fst (direct_attempt env ver file s) = direct_ok env (url file)"
  "snd (snd (direct_attempt env ver file s)) = [DirectFetch (url file)]"
  "proxyPool (fst (snd (direct_attempt env ver file s))) = proxyPool s"
  "proxyWorking (fst (snd (direct_attempt env ver file s))) = proxyWorking s"
  "downloads (fst (snd (direct_attempt env ver file s)))
     = downloads s + (if direct_ok env (url file) then 1 else 0)"
  "dlFailed (fst (snd (direct_attempt env ver file s)))
     = dlFailed s + (if direct_ok env (url file) then 0 else 1)"
  by (auto simp: direct_attempt_def direct_ok_def record_download_def Let_def split: sum.splits)

lemma randEl_nonempty: "randEl xs r = Some x \<Longrightarrow> xs \<noteq> []"
  by (auto simp: randEl_def Let_def split: if_splits)

lemma downloadFile_undersized:
  assumes ver: "randEl (versions s) (rand_version env) = Some ver"
    and fl: "pick_file ver = Some file"
    and pool: "proxyPool s = p # ps" and p: "p \<noteq> []"
    and resp: "proxyDownload env (url file) p = Inr res" "res_ok res" "res_body res = Inr n"
    and small: "n < 100"
  shows "downloadFile env s =
           (case direct_attempt env ver file
                   (log_add (MsgProxyDead p (ascii ''Too small: '' @ dec n @ ascii ''b'')) LWarn
                      (evict p (log_add (MsgViaProxy p) LDl
                         ((log_add (MsgDownload (filename file)
                                      (first_or (ascii ''unknown'') (loaders ver))
                                      (first_or (ascii ''?'') (game_versions ver))) LDl s)
                            \<lparr>proxyPool := ps @ [p]\<rparr>)))) of
              (ok, s5, net) \<Rightarrow> (Inr ok, s5, ProxyFetch (url file) p # net))"
proof -
  have v: "versions s \<noteq> []" using randEl_nonempty [OF ver] .
  have a: "attempt (\<lambda>n. ascii ''Too small: '' @ dec n @ ascii ''b'') (proxyDownload env (url file) p)
             = Inl (Error (ascii ''Too small: '' @ dec n @ ascii ''b''))"
    using resp small by (simp add: attempt_def)
  show ?thesis
    using v p
    by (simp add: downloadFile_def ver fl a Let_def nextProxy_def pool truthy_def)
qed


lemma direct_attempt_log:
  "log_list (fst (snd (direct_attempt env ver file (log_add m t s)))) ! 1 = (m, t)"
proof (cases "attempt (\<lambda>n. ascii ''Too small'') (directDownload env (url file))")
  case (Inl e)
  have "log_list (log_add (MsgDownloadFailed (reason e)) LErr
          ((\<lambda>x. x\<lparr>dlFailed := dlFailed (log_add m t s) + 1, lastError := Some (message e)\<rparr>)
             (log_add m t s))) ! 1 = (m, t)"
    by (rule log_add_second) simp
  with Inl show ?thesis
    by (simp add: direct_attempt_def)
next
  case (Inr n)
  let ?f = "\<lambda>x. x\<lparr>downloads := downloads (log_add m t s) + 1,
              lastDl := Some \<lparr>dl_filename = filename file,
                              dl_loader = first_or (ascii ''unknown'') (loaders ver),
                              dl_gameVer = first_or (ascii ''?'') (game_versions ver),
                              dl_version = version_number ver,
                              dl_sizeKB = sizeKB n,
                              dl_via = ascii ''direct'',
                              dl_ts = now env\<rparr>\<rparr>"
  have "log_list (log_add (MsgDownloadOk (downloads s + 1) (sizeKB n) (ascii ''direct'')) LOk
          (?f (log_add m t s))) ! 1 = (m, t)"
    by (rule log_add_second) simp
  with Inr show ?thesis
    by (simp add: direct_attempt_def record_download_def Let_def)
qed

lemma downloadFile_one_pair: "one_pair (snd (snd (downloadFile env s)))"
proof -
  have d: "\<And>ver file s. snd (snd (direct_attempt env ver file s)) = [DirectFetch (url file)]"
    by (rule direct_attempt_facts)
  show ?thesis
    by (auto simp: downloadFile_def Let_def d split_beta split: option.splits sum.splits)
qed

text \<open>
  C4. Where a proxy is checked out and the body of the response through it has fewer
  than 100 bytes, the attempt through the proxy fails as "too small": the proxy is
  removed from the pool, the log records it as dead, and one direct request for the
  same URL follows in the same call, whose outcome is the outcome of the download. No
  download sends more than this pair of requests.
\<close>

theorem undersized_proxy_download:
  assumes ver: "randEl (versions s) (rand_version env) = Some ver"
    and fl: "pick_file ver = Some file"
    and pool: "proxyPool s = p # ps" and p: "p \<noteq> []"
    and resp: "proxyDownload env (url file) p = Inr res" "res_ok res" "res_body res = Inr n"
    and small: "n < 100"
  shows "snd (snd (downloadFile env s)) = [ProxyFetch (url file) p, DirectFetch (url file)]
       \<and> p \<notin> set (proxyPool (fst (snd (downloadFile env s))))
       \<and> proxyPool (fst (snd (downloadFile env s))) = filter (\<lambda>q. q \<noteq> p) ps
       \<and> proxyWorking (fst (snd (downloadFile env s)))
            = length (proxyPool (fst (snd (downloadFile env s))))
       \<and> log_list (fst (snd (downloadFile env s))) ! 1
            = (MsgProxyDead p (ascii ''Too small: '' @ dec n @ ascii ''b''), LWarn)
       \<and> fst (downloadFile env s) = Inr (direct_ok env (url file))
       \<and> downloads (fst (snd (downloadFile env s)))
            = downloads s + (if direct_ok env (url file) then 1 else 0)
       \<and> dlFailed (fst (snd (downloadFile env s)))
            = dlFailed s + (if direct_ok env (url file) then 0 else 1)
       \<and> one_pair (snd (snd (downloadFile env' s')))"
  unfolding downloadFile_undersized [OF assms]
  by (simp add: split_beta direct_attempt_facts direct_attempt_log [unfolded One_nat_def]
        evict_def Let_def downloadFile_one_pair)

theorem undersized_proxy_download_witness:
  "randEl (versions jar_state) (rand_version jar_env) = Some jar_version
   \<and> pick_file jar_version = Some jar_file
   \<and> proxyPool jar_state = [ascii ''1.2.3.4:8080'']
   \<and> proxyDownload jar_env (url jar_file) (ascii ''1.2.3.4:8080'') = ok_response 50
   \<and> snd (snd (downloadFile jar_env jar_state))
        = [ProxyFetch (url jar_file) (ascii ''1.2.3.4:8080''), DirectFetch (url jar_file)]
   \<and> proxyPool (fst (snd (downloadFile jar_env jar_state))) = []
   \<and> fst (downloadFile jar_env jar_state) = Inr True
   \<and> downloads (fst (snd (downloadFile jar_env jar_state))) = 1"
proof -
  have ver: "randEl (versions jar_state) (rand_version jar_env) = Some jar_version"
    by (simp add: randEl_def jar_state_def jar_env_def env_down_def)
  have fl: "pick_file jar_version = Some jar_file"
    by (simp add: pick_file_def jar_version_def jar_file_def)
  have pool: "proxyPool jar_state = ascii ''1.2.3.4:8080'' # []"
    by (simp add: jar_state_def pool1_def)
  have p: "ascii ''1.2.3.4:8080'' \<noteq> []"
    by (simp add: ascii_def)
  have resp: "proxyDownload jar_env (url jar_file) (ascii ''1.2.3.4:8080'')
                = Inr \<lparr>res_ok = True, res_status = 200, res_body = Inr 50\<rparr>"
    by (simp add: jar_env_def ok_response_def)
  have ok: "direct_ok jar_env (url jar_file)"
    by (simp add: direct_ok_def attempt_def jar_env_def ok_response_def)
  have d: "downloads jar_state = 0"
    by (simp add: jar_state_def pool1_def initial_state_def)
  from undersized_proxy_download [OF ver fl pool p resp, of 50] ver fl pool resp ok d
  show ?thesis
    by (simp add: ok_response_def)
qed

section \<open>Cycle controller\<close>

lemma loadVersions_keeps [simp]:
  "errors (snd (loadVersions env s)) = errors s"
  "cycles (snd (loadVersions env s)) = cycles s"
  by (auto simp: loadVersions_def Let_def split: sum.splits prod.splits version_json.splits)

lemma registerView_keeps [simp]:
  "errors (snd (registerView env s)) = errors s"
  "cycles (snd (registerView env s)) = cycles s"
  by (auto simp: registerView_def Let_def split: sum.splits prod.splits option.splits)

lemma direct_attempt_keeps [simp]:
  "errors (fst (snd (direct_attempt env ver file s))) = errors s"
  "cycles (fst (snd (direct_attempt env ver file s))) = cycles s"
  by (auto simp: direct_attempt_def record_download_def Let_def split: sum.splits)

lemma nextProxy_keeps [simp]:
  "errors (snd (nextProxy s)) = errors s"
  "cycles (snd (nextProxy s)) = cycles s"
  by (auto simp: nextProxy_def split: list.splits)

lemma downloadFile_keeps [simp]:
  "errors (fst (snd (downloadFile env s))) = errors s"
  "cycles (fst (snd (downloadFile env s))) = cycles s"
  by (auto simp: downloadFile_def Let_def split_beta record_download_def evict_def
           split: sum.splits option.splits)

lemma cycle_start_keeps [simp]:
  "errors (cycle_start s) = errors s"
  "cycles (cycle_start s) = cycles s + 1"
  by (auto simp: cycle_start_def Let_def refreshProxyPool_sync_def)

lemma cycle_body_keeps [simp]:
  "errors (snd (cycle_body env s)) = errors s"
  "cycles (snd (cycle_body env s)) = cycles s"
proof -
  obtain r s1 where l: "(if versions s = [] then loadVersions env s else (Inr (), s)) = (r, s1)"
    by (cases "if versions s = [] then loadVersions env s else (Inr (), s)") auto
  have s1: "errors s1 = errors s \<and> cycles s1 = cycles s"
    using arg_cong [OF l, of snd] loadVersions_keeps [of env s] by (auto split: if_splits)
  let ?s3 = "log_add (MsgReading (5000 + rand_read env * 9000)) LInfo (snd (registerView env s1))"
  obtain d s4 net where d: "downloadFile env ?s3 = (d, s4, net)"
    by (cases "downloadFile env ?s3") auto
  have s4: "errors s4 = errors s \<and> cycles s4 = cycles s"
    using downloadFile_keeps [of env ?s3] s1 by (simp add: d)
  show "errors (snd (cycle_body env s)) = errors s" "cycles (snd (cycle_body env s)) = cycles s"
    using s1 s4 by (auto simp: cycle_body_def l d Let_def split: sum.splits)
qed

lemma jitter_bounds:
  "0 \<le> r \<Longrightarrow> r < 1 \<Longrightarrow> 10500 \<le> jitter INTERVAL_MS (1 / 4) r \<and> jitter INTERVAL_MS (1 / 4) r < 13500"
  unfolding jitter_def INTERVAL_MS_def by argo

lemma runCycle_facts:
  "snd (runCycle env s) = [jitter INTERVAL_MS (1 / 4) (rand_next env)]"
  "cycles (fst (runCycle env s)) = cycles s + 1"
  "fst (cycle_body env (cycle_start s)) = None \<Longrightarrow> errors (fst (runCycle env s)) = errors s"
  "fst (cycle_body env (cycle_start s)) = Some e \<Longrightarrow>
     errors (fst (runCycle env s)) = errors s + 1
     \<and> lastError (fst (runCycle env s)) = Some (message e)
     \<and> log_list (fst (runCycle env s)) ! 1 = (MsgCycleError (message e), LErr)"
proof -
  obtain thrown s1 where b: "cycle_body env (cycle_start s) = (thrown, s1)"
    by (cases "cycle_body env (cycle_start s)") auto
  have s1: "errors s1 = errors s" "cycles s1 = cycles s + 1"
    using cycle_body_keeps [of env "cycle_start s"] by (simp_all add: b)
  show "snd (runCycle env s) = [jitter INTERVAL_MS (1 / 4) (rand_next env)]"
    by (simp add: runCycle_def b Let_def)
  show "cycles (fst (runCycle env s)) = cycles s + 1"
    using s1 by (simp add: runCycle_def b Let_def split: option.splits)
  show "errors (fst (runCycle env s)) = errors s" if "fst (cycle_body env (cycle_start s)) = None"
    using s1 that by (simp add: runCycle_def b Let_def)
  show "errors (fst (runCycle env s)) = errors s + 1
     \<and> lastError (fst (runCycle env s)) = Some (message e)
     \<and> log_list (fst (runCycle env s)) ! 1 = (MsgCycleError (message e), LErr)"
    if "fst (cycle_body env (cycle_start s)) = Some e"
  proof -
    have "log_list (log_add (MsgNext (jitter INTERVAL_MS (1 / 4) (rand_next env))) LInfo
            ((\<lambda>x. x\<lparr>errors := errors s1 + 1, lastError := Some (message e)\<rparr>)
               (log_add (MsgCycleError (message e)) LErr s1))) ! 1
          = (MsgCycleError (message e), LErr)"
      by (rule log_add_second) simp
    with s1 that show ?thesis
      by (simp add: runCycle_def b Let_def)
  qed
qed


lemma cycle_start_versions [simp]: "versions (cycle_start s) = versions s"
  by (simp add: cycle_start_def Let_def refreshProxyPool_sync_def log_add_def)

lemma load_failure_thrown:
  "versions s = [] \<Longrightarrow> apiFetch env = Inl e \<Longrightarrow> fst (cycle_body env s) = Some e"
  by (simp add: cycle_body_def loadVersions_def Let_def)

lemma log_add_srv_fields [simp]:
  "errors_srv (log_add_srv m t s) = errors_srv s"
  "running (log_add_srv m t s) = running s"
  "versions_srv (log_add_srv m t s) = versions_srv s"
  "views_srv (log_add_srv m t s) = views_srv s"
  "downloads_srv (log_add_srv m t s) = downloads_srv s"
  "lastError_srv (log_add_srv m t s) = lastError_srv s"
  by (simp_all add: log_add_srv_def Let_def)

lemma loadVersions_srv_keeps [simp]:
  "errors_srv (snd (loadVersions_srv env s)) = errors_srv s"
  "running (snd (loadVersions_srv env s)) = running s"
  by (auto simp: loadVersions_srv_def loadVersions_try_def Let_def
           split: sum.splits prod.splits version_json.splits)

lemma registerView_srv_keeps [simp]:
  "errors_srv (snd (registerView_srv env s)) = errors_srv s"
  "running (snd (registerView_srv env s)) = running s"
  by (auto simp: registerView_srv_def Let_def split: sum.splits prod.splits option.splits)

lemma downloadFile_srv_keeps:
  "running (fst (snd (downloadFile_srv env s))) = running s"
  "fst (downloadFile_srv env s) = Inl e \<Longrightarrow> fst (snd (downloadFile_srv env s)) = s"
  by (auto simp: downloadFile_srv_def Let_def split: sum.splits option.splits if_splits)

lemma cycle_body_srv_keeps:
  "running (snd (cycle_body_srv env s)) = running s"
  "fst (cycle_body_srv env s) = Some e \<Longrightarrow> errors_srv (snd (cycle_body_srv env s)) = errors_srv s"
proof -
  obtain r s1 where l:
    "(if versions_srv s = [] then loadVersions_srv env s else (Inr (), s)) = (r, s1)"
    by (cases "if versions_srv s = [] then loadVersions_srv env s else (Inr (), s)") auto
  have s1: "errors_srv s1 = errors_srv s \<and> running s1 = running s"
    using arg_cong [OF l, of snd] loadVersions_srv_keeps [of env s] by (auto split: if_splits)
  let ?s3 = "log_add_srv (SrvReading (humanReadDelay (rand_read env))) LInfo
               (snd (registerView_srv env s1))"
  obtain d s4 net where d: "downloadFile_srv env ?s3 = (d, s4, net)"
    by (cases "downloadFile_srv env ?s3") auto
  have r4: "running s4 = running s"
    using downloadFile_srv_keeps(1) [of env ?s3] s1 by (simp add: d)
  have e4: "errors_srv s4 = errors_srv s" if "d = Inl x" for x
    using downloadFile_srv_keeps(2) [of env ?s3 x] s1 that by (simp add: d)
  show "running (snd (cycle_body_srv env s)) = running s"
    using s1 r4 by (auto simp: cycle_body_srv_def l d Let_def split: sum.splits)
  show "errors_srv (snd (cycle_body_srv env s)) = errors_srv s"
    if "fst (cycle_body_srv env s) = Some e"
    using s1 e4 that by (auto simp: cycle_body_srv_def l d Let_def split: sum.splits)
qed

lemma load_failure_thrown_srv:
  "versions_srv s = [] \<Longrightarrow> apiFetch env = Inl e \<Longrightarrow> fst (cycle_body_srv env s) = Some e"
  by (simp add: cycle_body_srv_def loadVersions_srv_def loadVersions_try_def Let_def)

lemma jitter_srv_bounds:
  "0 \<le> r \<Longrightarrow> r < 1 \<Longrightarrow>
     8500 \<le> jitter_srv INTERVAL_MS_srv r \<and> jitter_srv INTERVAL_MS_srv r < 11500"
  unfolding jitter_srv_def INTERVAL_MS_srv_def by argo

lemma runCycle_srv_facts:
  assumes "running t"
  shows "snd (runCycle_srv env t) = [jitter_srv INTERVAL_MS_srv (rand_next env)]"
    and "running (fst (runCycle_srv env t))"
    and "fst (cycle_body_srv env (log_add_srv SrvStarting LInfo t)) = Some e \<Longrightarrow>
           errors_srv (fst (runCycle_srv env t)) = errors_srv t + 1
           \<and> lastError_srv (fst (runCycle_srv env t)) = Some (message e)"
proof -
  let ?t0 = "log_add_srv SrvStarting LInfo t"
  obtain thrown t1 where b: "cycle_body_srv env ?t0 = (thrown, t1)"
    by (cases "cycle_body_srv env ?t0") auto
  have r1: "running t1"
    using cycle_body_srv_keeps(1) [of env ?t0] assms by (simp add: b)
  show "snd (runCycle_srv env t) = [jitter_srv INTERVAL_MS_srv (rand_next env)]"
    using assms by (simp add: runCycle_srv_def b Let_def)
  show "running (fst (runCycle_srv env t))"
    using assms r1 by (simp add: runCycle_srv_def b Let_def split: option.splits)
  show "errors_srv (fst (runCycle_srv env t)) = errors_srv t + 1
           \<and> lastError_srv (fst (runCycle_srv env t)) = Some (message e)"
    if "fst (cycle_body_srv env ?t0) = Some e"
    using assms that cycle_body_srv_keeps(2) [of env ?t0 e]
    by (simp add: runCycle_srv_def b Let_def)
qed

text \<open>
  C7. Every cycle sets exactly one timer for the next cycle, after the jittered base
  interval, whatever happened in its body. An exception that leaves the body, such as
  a failed load of the metadata, is caught: it is logged as a cycle error, counted once
  in \<^verbatim>\<open>state.errors\<close> and kept in \<^verbatim>\<open>state.lastError\<close>; with no exception the
  count stays. The controller of \<^verbatim>\<open>server.js\<close> sets its timer and counts a caught
  exception in the same way; its cycle runs while the flag \<^verbatim>\<open>running\<close> is set and
  never clears it. With a draw in [0, 1) the
  delay is within 12.5 per cent of 12000 ms, and within 15 per cent of 10000 ms in
  \<^verbatim>\<open>server.js\<close>.
\<close>

theorem cycle_always_reschedules:
  "snd (runCycle env s) = [jitter INTERVAL_MS (1 / 4) (rand_next env)]
   \<and> cycles (fst (runCycle env s)) = cycles s + 1
   \<and> (\<forall>e. fst (cycle_body env (cycle_start s)) = Some e \<longrightarrow>
          errors (fst (runCycle env s)) = errors s + 1
          \<and> lastError (fst (runCycle env s)) = Some (message e)
          \<and> log_list (fst (runCycle env s)) ! 1 = (MsgCycleError (message e), LErr))
   \<and> (fst (cycle_body env (cycle_start s)) = None \<longrightarrow>
          errors (fst (runCycle env s)) = errors s)
   \<and> (\<forall>e. versions s = [] \<and> apiFetch env = Inl e \<longrightarrow>
          fst (cycle_body env (cycle_start s)) = Some e)
   \<and> (0 \<le> rand_next env \<and> rand_next env < 1 \<longrightarrow>
          10500 \<le> jitter INTERVAL_MS (1 / 4) (rand_next env)
          \<and> jitter INTERVAL_MS (1 / 4) (rand_next env) < 13500)
   \<and> (running t \<longrightarrow>
          snd (runCycle_srv env t) = [jitter_srv INTERVAL_MS_srv (rand_next env)]
          \<and> running (fst (runCycle_srv env t))
          \<and> (\<forall>e. fst (cycle_body_srv env (log_add_srv SrvStarting LInfo t)) = Some e \<longrightarrow>
                 errors_srv (fst (runCycle_srv env t)) = errors_srv t + 1
                 \<and> lastError_srv (fst (runCycle_srv env t)) = Some (message e))
          \<and> (\<forall>e. versions_srv t = [] \<and> apiFetch env = Inl e \<longrightarrow>
                 fst (cycle_body_srv env (log_add_srv SrvStarting LInfo t)) = Some e)
          \<and> (0 \<le> rand_next env \<and> rand_next env < 1 \<longrightarrow>
                 8500 \<le> jitter_srv INTERVAL_MS_srv (rand_next env)
                 \<and> jitter_srv INTERVAL_MS_srv (rand_next env) < 11500))"
  using runCycle_facts [of env s] runCycle_srv_facts [of t env]
    load_failure_thrown [of "cycle_start s" env] load_failure_thrown_srv [of "log_add_srv SrvStarting LInfo t" env]
    jitter_bounds [of "rand_next env"] jitter_srv_bounds [of "rand_next env"]
  by simp

theorem cycle_always_reschedules_witness:
  "versions initial_state = [] \<and> apiFetch env_down = Inl (Error (ascii ''fetch failed''))
   \<and> snd (runCycle env_down initial_state) = [10500]
   \<and> cycles (fst (runCycle env_down initial_state)) = 1
   \<and> errors (fst (runCycle env_down initial_state)) = 1
   \<and> lastError (fst (runCycle env_down initial_state)) = Some (ascii ''fetch failed'')
   \<and> running initial_state_srv \<and> versions_srv initial_state_srv = []
   \<and> snd (runCycle_srv env_down initial_state_srv) = [8500]
   \<and> running (fst (runCycle_srv env_down initial_state_srv))
   \<and> errors_srv (fst (runCycle_srv env_down initial_state_srv)) = 1"
proof -
  have a: "versions initial_state = []" "apiFetch env_down = Inl (Error (ascii ''fetch failed''))"
    "rand_next env_down = 0" "cycles initial_state = 0" "errors initial_state = 0"
    by (simp_all add: initial_state_def env_down_def)
  have b: "running initial_state_srv" "versions_srv initial_state_srv = []"
    "errors_srv initial_state_srv = 0"
    by (simp_all add: initial_state_srv_def)
  have j: "jitter INTERVAL_MS (1 / 4) 0 = 10500" "jitter_srv INTERVAL_MS_srv 0 = 8500"
    by (simp_all add: jitter_def INTERVAL_MS_def jitter_srv_def INTERVAL_MS_srv_def)
  from cycle_always_reschedules [of env_down initial_state initial_state_srv] a b j
  show ?thesis by simp
qed

end
